theory Spec2Isabelle
  imports Complex_Main
begin

section \<open>Data model of the multi-plate EVG monitor\<close>

text \<open>
  The server keeps one global object \<^verbatim>\<open>monitoringState\<close> whose \<^verbatim>\<open>plates\<close> array
  holds one object per tracked vehicle. A plate's \<^verbatim>\<open>status\<close> is one of the five string
  literals the code ever assigns; \<^verbatim>\<open>lastChecked\<close> is \<^verbatim>\<open>null\<close> or a \<^verbatim>\<open>Date\<close>
  (milliseconds since the epoch, a natural number here). The field \<^verbatim>\<open>id\<close> is called
  \<open>plateId\<close>, the name the code gives the parameter of \<^verbatim>\<open>updatePlateStatus\<close>; it is
  a string made from the clock (followed by a random number in the bulk handler), and
  the add handler does nothing that makes two of them different. \<^verbatim>\<open>phoneNumber\<close> is
  the value the request gave, which the bulk handler stores whatever its type is.

  The source comes in two versions of \<^verbatim>\<open>server.js\<close>. The cycle and the add, delete
  and bulk handlers are the same in both; the update handler is in the longer one only.
\<close>

datatype status = Pending | Checking | Clear | Found | Error

text \<open>
  A value that \<^verbatim>\<open>express.json()\<close> has parsed from a request body. An object is the
  list of its members in the order of the text; where a name occurs twice the later
  member is the one \<^verbatim>\<open>JSON.parse\<close> keeps. A number is the real number of the double
  it was parsed to (both zeros are \<open>0\<close>).
\<close>

datatype json =
    JNull
  | JBool bool
  | JNum real
  | JStr string
  | JArr "json list"
  | JObj "(string \<times> json) list"

record plate =
  plateId :: string
  plateNumber :: string
  phoneNumber :: json
  status :: status
  lastChecked :: "nat option"
  alertSent :: bool

text \<open>
  \<open>smsLog\<close> is not a field of the JavaScript object: it is the trace of the calls to
  \<^verbatim>\<open>sendSMS\<close> made so far, each entry holding the position in the array of the plate
  whose loop iteration made the call, and the two arguments of the call.
\<close>

record monitoringState =
  isActive :: bool
  checkInterval :: nat
  plates :: "plate list"
  lastCheckTime :: "nat option"
  smsLog :: "(nat \<times> json \<times> string) list"

text \<open>The state the module starts with.\<close>

definition initialState :: monitoringState where
  "initialState =
     \<lparr>isActive = False, checkInterval = 15, plates = [], lastCheckTime = None, smsLog = []\<rparr>"

subsection \<open>Strings of a request\<close>

text \<open>
  A field of a JSON request body is a string or is missing (\<open>None\<close>). JavaScript's
  \<^verbatim>\<open>!x\<close> is true for a missing field and for the empty string. \<^verbatim>\<open>toUpperCase\<close> is
  modelled on the ASCII letters, the alphabet of plate numbers; other characters are
  left as they are.
\<close>

definition truthy :: "string option \<Rightarrow> bool" where
  "truthy x = (case x of None \<Rightarrow> False | Some s \<Rightarrow> s \<noteq> [])"

definition toUpperCaseChar :: "char \<Rightarrow> char" where
  "toUpperCaseChar c =
     (let n = (of_char c :: nat) in if 97 \<le> n \<and> n \<le> 122 then char_of (n - 32) else c)"

definition toUpperCase :: "string \<Rightarrow> string" where
  "toUpperCase s = map toUpperCaseChar s"

subsection \<open>Looking a plate up\<close>

text \<open>
  \<^verbatim>\<open>Array.prototype.findIndex\<close>: the position of the first element that satisfies the
  predicate, \<open>None\<close> for JavaScript's \<open>-1\<close>. \<^verbatim>\<open>Array.prototype.find\<close> returns a
  reference to that same element, so an assignment through the reference is an update
  of the array at that position.
\<close>

fun findIndex :: "('a \<Rightarrow> bool) \<Rightarrow> 'a list \<Rightarrow> nat option" where
  "findIndex P [] = None"
| "findIndex P (x # xs) = (if P x then Some 0 else map_option Suc (findIndex P xs))"

subsection \<open>updatePlateStatus\<close>

text \<open>
  The partial update objects the cycle passes hold a subset of the keys \<^verbatim>\<open>status\<close>,
  \<^verbatim>\<open>lastChecked\<close> and \<^verbatim>\<open>alertSent\<close>; \<open>None\<close> is an absent key. \<^verbatim>\<open>Object.assign\<close>
  copies the keys that are present.
\<close>

record updates =
  u_status :: "status option"
  u_lastChecked :: "nat option"
  u_alertSent :: "bool option"

definition objectAssign :: "plate \<Rightarrow> updates \<Rightarrow> plate" where
  "objectAssign p u =
     (let p1 = (case u_status u of None \<Rightarrow> p | Some s \<Rightarrow> p\<lparr>status := s\<rparr>);
          p2 = (case u_lastChecked u of None \<Rightarrow> p1 | Some t \<Rightarrow> p1\<lparr>lastChecked := Some t\<rparr>);
          p3 = (case u_alertSent u of None \<Rightarrow> p2 | Some b \<Rightarrow> p2\<lparr>alertSent := b\<rparr>)
      in p3)"

definition updatePlateStatus :: "string \<Rightarrow> updates \<Rightarrow> monitoringState \<Rightarrow> monitoringState" where
  "updatePlateStatus pid u st =
     (case findIndex (\<lambda>p. plateId p = pid) (plates st) of
        None \<Rightarrow> st
      | Some k \<Rightarrow> st\<lparr>plates := (plates st)[k := objectAssign (plates st ! k) u]\<rparr>)"

section \<open>The registry operations (the HTTP handlers)\<close>

text \<open>
  A handler answers with an error (the HTTP status and the \<^verbatim>\<open>error\<close> message of the
  JSON answer) or with its payload, and leaves a state. The identifier of a new plate
  comes from the clock (\<^verbatim>\<open>Date.now().toString()\<close>, in the bulk handler followed by
  \<^verbatim>\<open>Math.random()\<close>): it is an input of the model.
\<close>

type_synonym httpError = "nat \<times> string"

definition newPlate :: "string \<Rightarrow> string \<Rightarrow> json \<Rightarrow> plate" where
  "newPlate nid pn ph =
     \<lparr>plateId = nid, plateNumber = toUpperCase pn, phoneNumber = ph,
      status = Pending, lastChecked = None, alertSent = False\<rparr>"

text \<open>\<^verbatim>\<open>app.post('/api/plates/add')\<close>\<close>

definition addPlate ::
  "string \<Rightarrow> string option \<Rightarrow> string option \<Rightarrow> monitoringState
     \<Rightarrow> (httpError + plate) \<times> monitoringState" where
  "addPlate nid pn ph st =
     (if \<not> truthy pn \<or> \<not> truthy ph
      then (Inl (400, ''Plate number and phone number required''), st)
      else
        (case find (\<lambda>p. toUpperCase (plateNumber p) = toUpperCase (the pn)) (plates st) of
           Some exists \<Rightarrow> (Inl (400, ''Plate number already being monitored''), st)
         | None \<Rightarrow>
             (let np = newPlate nid (the pn) (JStr (the ph))
              in (Inr np, st\<lparr>plates := plates st @ [np]\<rparr>))))"

text \<open>\<^verbatim>\<open>app.delete('/api/plates/:id')\<close>: \<^verbatim>\<open>splice(plateIndex, 1)\<close> takes one element out.\<close>

definition removePlate ::
  "string \<Rightarrow> monitoringState \<Rightarrow> (httpError + plate) \<times> monitoringState" where
  "removePlate pid st =
     (case findIndex (\<lambda>p. plateId p = pid) (plates st) of
        None \<Rightarrow> (Inl (404, ''Plate not found''), st)
      | Some k \<Rightarrow>
          (Inr (plates st ! k),
           st\<lparr>plates := take k (plates st) @ drop (Suc k) (plates st)\<rparr>))"

text \<open>\<^verbatim>\<open>app.put('/api/plates/:id')\<close>: each field is assigned when the request has it.\<close>

definition updatePlate ::
  "string \<Rightarrow> string option \<Rightarrow> string option \<Rightarrow> monitoringState
     \<Rightarrow> (httpError + plate) \<times> monitoringState" where
  "updatePlate pid pn ph st =
     (case findIndex (\<lambda>p. plateId p = pid) (plates st) of
        None \<Rightarrow> (Inl (404, ''Plate not found''), st)
      | Some k \<Rightarrow>
          (let p0 = plates st ! k;
               p1 = (if truthy pn then p0\<lparr>plateNumber := toUpperCase (the pn)\<rparr> else p0);
               p2 = (if truthy ph then p1\<lparr>phoneNumber := JStr (the ph)\<rparr> else p1)
           in (Inr p2, st\<lparr>plates := (plates st)[k := p2]\<rparr>)))"

text \<open>
  \<^verbatim>\<open>app.post('/api/plates/bulk')\<close>. What the handler reads of the request is the
  member \<^verbatim>\<open>plates\<close> of the body that \<^verbatim>\<open>express.json()\<close> has parsed (\<open>None\<close> when
  the body has none), which may be any value, and so may the elements of the array and
  the two members the callback of \<^verbatim>\<open>forEach\<close> takes out of an element.

  \<open>toBoolean\<close> is the truth value JavaScript gives a value in \<^verbatim>\<open>!x\<close>; \<open>None\<close> is
  \<^verbatim>\<open>undefined\<close>. \<open>getMember\<close> reads a member that is not one of the built-in
  properties of strings and arrays, as \<^verbatim>\<open>plateNumber\<close> and \<^verbatim>\<open>phoneNumber\<close> are: only
  an object can have it.
\<close>

definition toBoolean :: "json option \<Rightarrow> bool" where
  "toBoolean x =
     (case x of
        None \<Rightarrow> False
      | Some JNull \<Rightarrow> False
      | Some (JBool b) \<Rightarrow> b
      | Some (JNum r) \<Rightarrow> r \<noteq> 0
      | Some (JStr s) \<Rightarrow> s \<noteq> []
      | Some (JArr vs) \<Rightarrow> True
      | Some (JObj ms) \<Rightarrow> True)"

definition getMember :: "string \<Rightarrow> json \<Rightarrow> json option" where
  "getMember k v = (case v of JObj ms \<Rightarrow> map_of (rev ms) k | _ \<Rightarrow> None)"

text \<open>
  The callback of \<^verbatim>\<open>forEach\<close> is \<open>bulkEntry\<close>; it reads and extends
  \<^verbatim>\<open>monitoringState.plates\<close> entry by entry, and \<open>mkId k\<close> is the identifier generated
  for the entry at position \<open>k\<close> of the request. The callback throws a
  \<^verbatim>\<open>TypeError\<close> in two places: the destructuring of its parameter, when the element
  is \<^verbatim>\<open>null\<close>, and the call \<^verbatim>\<open>plateNumber.toUpperCase()\<close>, when both members are
  truthy and \<^verbatim>\<open>plateNumber\<close> is not a string (in the callback of \<^verbatim>\<open>find\<close> when the
  registry has a plate, in the object literal of the new plate when it has none). It
  has changed nothing when it throws. The exception leaves \<^verbatim>\<open>forEach\<close> and the
  handler, no answer is written by the handler, and the plates pushed for the entries
  before stay in the registry: the result \<open>Inl\<close> of \<open>bulkAdd\<close>. A request whose
  \<^verbatim>\<open>plates\<close> is not an array is answered with status 400.
\<close>

type_synonym exn = string

type_synonym bulkAcc = "plate list \<times> (json option \<times> string) list \<times> monitoringState"

definition bulkEntry :: "string \<Rightarrow> json \<Rightarrow> bulkAcc \<Rightarrow> exn + bulkAcc" where
  "bulkEntry nid e acc =
     (case acc of (added, errors, st) \<Rightarrow>
        if e = JNull then Inl ''TypeError: Cannot destructure property plateNumber of null''
        else
          (let pn = getMember ''plateNumber'' e;
               ph = getMember ''phoneNumber'' e
           in if \<not> toBoolean pn \<or> \<not> toBoolean ph
              then Inr (added, errors @ [(pn, ''Missing plate number or phone number'')], st)
              else
                (case pn of
                   Some (JStr n) \<Rightarrow>
                     (case find (\<lambda>p. toUpperCase (plateNumber p) = toUpperCase n) (plates st) of
                        Some exists \<Rightarrow> Inr (added, errors @ [(pn, ''Already exists'')], st)
                      | None \<Rightarrow>
                          (let np = newPlate nid n (the ph)
                           in Inr (added @ [np], errors, st\<lparr>plates := plates st @ [np]\<rparr>)))
                 | _ \<Rightarrow> Inl ''TypeError: plateNumber.toUpperCase is not a function'')))"

fun forEachEntry ::
  "(nat \<Rightarrow> string) \<Rightarrow> nat \<Rightarrow> json list \<Rightarrow> bulkAcc \<Rightarrow> (exn \<times> bulkAcc) + bulkAcc" where
  "forEachEntry mkId k [] acc = Inr acc"
| "forEachEntry mkId k (e # es) acc =
     (case bulkEntry (mkId k) e acc of
        Inl x \<Rightarrow> Inl (x, acc)
      | Inr acc' \<Rightarrow> forEachEntry mkId (Suc k) es acc')"

definition bulkAdd ::
  "(nat \<Rightarrow> string) \<Rightarrow> json option \<Rightarrow> monitoringState
     \<Rightarrow> (exn + httpError + plate list \<times> (json option \<times> string) list) \<times> monitoringState" where
  "bulkAdd mkId body st =
     (case body of
        Some (JArr entries) \<Rightarrow>
          (case forEachEntry mkId 0 entries ([], [], st) of
             Inl (x, (added, errors, st')) \<Rightarrow> (Inl x, st')
           | Inr (added, errors, st') \<Rightarrow> (Inr (Inr (added, errors)), st'))
      | _ \<Rightarrow> (Inr (Inl (400, ''Plates must be an array'')), st))"

text \<open>
  The elements on which the callback throws (\<open>bulkEntry_throws_iff\<close> below): \<^verbatim>\<open>null\<close>,
  and an element both of whose members are truthy and whose \<^verbatim>\<open>plateNumber\<close> is not a
  string.
\<close>

definition throwsOn :: "json \<Rightarrow> bool" where
  "throwsOn e =
     (e = JNull \<or>
      (toBoolean (getMember ''plateNumber'' e) \<and> toBoolean (getMember ''phoneNumber'' e) \<and>
       (\<forall>n. getMember ''plateNumber'' e \<noteq> Some (JStr n))))"

text \<open>
  No two plates of the registry have plate numbers that are equal without regard to
  case (the comparison the add handler makes).
\<close>

definition uniqueNumbers :: "monitoringState \<Rightarrow> bool" where
  "uniqueNumbers st = distinct (map (\<lambda>p. toUpperCase (plateNumber p)) (plates st))"

section \<open>The monitoring cycle\<close>

text \<open>
  The two collaborators of the cycle are outside the program: the page probe
  \<^verbatim>\<open>checkEVGForPlate\<close> resolves to a boolean or throws, \<^verbatim>\<open>sendSMS\<close> resolves to
  \<^verbatim>\<open>true\<close> or rethrows the error of the Twilio client. The environment of one cycle
  gives, for the loop iteration at position \<open>i\<close>, what each call made there settles to
  (\<open>Inl\<close> is a thrown error with its message), and what \<^verbatim>\<open>new Date()\<close> reads.
\<close>

record env =
  dateAtStart :: nat
  dateAt :: "nat \<Rightarrow> nat"
  checkEVGForPlate :: "nat \<Rightarrow> string \<Rightarrow> exn + bool"
  sendSMS :: "nat \<Rightarrow> json \<Rightarrow> string \<Rightarrow> exn + bool"

text \<open>
  The body of the \<^verbatim>\<open>try\<close> block for the plate at position \<open>i\<close> of the array (the loop
  variable \<^verbatim>\<open>plate\<close> is a reference to that element, read afresh at every use).
  A throw leaves the \<^verbatim>\<open>try\<close> block with the state reached so far. The console
  output and the pause of three seconds that ends the block change no state.
\<close>

definition tryBlock :: "env \<Rightarrow> nat \<Rightarrow> monitoringState \<Rightarrow> (exn \<times> monitoringState) + monitoringState" where
  "tryBlock env i st =
     (let st1 = updatePlateStatus (plateId (plates st ! i))
                  \<lparr>u_status = Some Checking, u_lastChecked = Some (dateAt env i),
                   u_alertSent = None\<rparr> st
      in case checkEVGForPlate env i (plateNumber (plates st1 ! i)) of
           Inl e \<Rightarrow> Inl (e, st1)
         | Inr found \<Rightarrow>
             if found \<and> \<not> alertSent (plates st1 ! i) then
               (let st2 = updatePlateStatus (plateId (plates st1 ! i))
                            \<lparr>u_status = Some Found, u_lastChecked = None, u_alertSent = None\<rparr> st1;
                    st3 = st2\<lparr>smsLog := smsLog st2 @
                            [(i, phoneNumber (plates st2 ! i), plateNumber (plates st2 ! i))]\<rparr>
                in case sendSMS env i (phoneNumber (plates st2 ! i)) (plateNumber (plates st2 ! i)) of
                     Inl e \<Rightarrow> Inl (e, st3)
                   | Inr ok \<Rightarrow>
                       Inr (updatePlateStatus (plateId (plates st3 ! i))
                              \<lparr>u_status = None, u_lastChecked = None, u_alertSent = Some True\<rparr> st3))
             else if found \<and> alertSent (plates st1 ! i) then
               Inr (updatePlateStatus (plateId (plates st1 ! i))
                      \<lparr>u_status = Some Found, u_lastChecked = None, u_alertSent = None\<rparr> st1)
             else
               Inr (updatePlateStatus (plateId (plates st1 ! i))
                      \<lparr>u_status = Some Clear, u_lastChecked = None, u_alertSent = Some False\<rparr> st1))"

text \<open>One loop iteration: the \<^verbatim>\<open>try\<close> block and its \<^verbatim>\<open>catch\<close>.\<close>

definition processPlate :: "env \<Rightarrow> nat \<Rightarrow> monitoringState \<Rightarrow> monitoringState" where
  "processPlate env i st =
     (case tryBlock env i st of
        Inr st' \<Rightarrow> st'
      | Inl (e, st') \<Rightarrow>
          updatePlateStatus (plateId (plates st' ! i))
            \<lparr>u_status = Some Error, u_lastChecked = None, u_alertSent = None\<rparr> st')"

text \<open>
  \<^verbatim>\<open>for (const plate of monitoringState.plates)\<close>: the array iterator compares its
  position with the current length of the array before each iteration.
\<close>

function cycleLoop :: "env \<Rightarrow> nat \<Rightarrow> monitoringState \<Rightarrow> monitoringState" where
  "cycleLoop env i st =
     (if i < length (plates st) then cycleLoop env (Suc i) (processPlate env i st) else st)"
  by pat_completeness auto
termination
proof (relation "measure (\<lambda>(env, i, st). length (plates st) - i)")
  show "wf (measure (\<lambda>(env, i, st). length (plates st) - i))"
    by simp
next
  fix env :: env and i :: nat and st :: monitoringState
  assume less: "i < length (plates st)"
  have len: "length (plates (updatePlateStatus pid u s)) = length (plates s)" for pid u s
    by (simp add: updatePlateStatus_def split: option.splits)
  have "length (plates (processPlate env i st)) = length (plates st)"
    by (simp add: processPlate_def tryBlock_def Let_def len split: sum.splits prod.splits)
  with less
  show "((env, Suc i, processPlate env i st), (env, i, st))
          \<in> measure (\<lambda>(env, i, st). length (plates st) - i)"
    by simp
qed

declare cycleLoop.simps [simp del]

text \<open>
  \<^verbatim>\<open>performMonitoringCycle\<close>, run from its call to the settling of the promise it
  returns with nothing else scheduled in between. The result is the settled promise:
  \<open>Inl\<close> would be a rejection.
\<close>

definition performMonitoringCycle :: "env \<Rightarrow> monitoringState \<Rightarrow> exn + monitoringState" where
  "performMonitoringCycle env st =
     (if \<not> isActive st \<or> length (plates st) = 0 then Inr st
      else Inr (cycleLoop env 0 (st\<lparr>lastCheckTime := Some (dateAtStart env)\<rparr>)))"

section \<open>Invocations of the cycle on the event loop\<close>

text \<open>
  \<^verbatim>\<open>performMonitoringCycle\<close> is an \<^verbatim>\<open>async\<close> function: a call runs to its first
  \<^verbatim>\<open>await\<close> and returns; it goes on when the awaited promise settles. An invocation
  that has not finished is a task: the position of its loop variable in the array and
  the \<^verbatim>\<open>await\<close> it is suspended at. The events are a direct call (as
  \<^verbatim>\<open>/api/monitoring/start\<close> makes), a tick of the cron job (the callback of
  \<^verbatim>\<open>setupCronJob\<close>) and the settling of the promise that one task awaits. An event
  carries what \<^verbatim>\<open>new Date()\<close> reads while it is handled (for \<^verbatim>\<open>lastCheckTime\<close> and
  for \<^verbatim>\<open>lastChecked\<close>).
\<close>

datatype await = AwaitProbe | AwaitSMS | AwaitDelay

type_synonym task = "nat \<times> await"

record system =
  mon :: monitoringState
  running :: "task list"

datatype event =
    Run nat nat
  | Tick nat nat
  | Settle nat "exn + bool" nat

text \<open>
  The loop fetches the element at position \<open>i\<close>, if there is one, and runs the
  \<^verbatim>\<open>try\<close> block to the \<^verbatim>\<open>await\<close> of the probe; otherwise the invocation ends.
\<close>

definition nextPlate :: "nat \<Rightarrow> nat \<Rightarrow> monitoringState \<Rightarrow> monitoringState \<times> task option" where
  "nextPlate t i st =
     (if i < length (plates st)
      then (updatePlateStatus (plateId (plates st ! i))
              \<lparr>u_status = Some Checking, u_lastChecked = Some t, u_alertSent = None\<rparr> st,
            Some (i, AwaitProbe))
      else (st, None))"

definition catchBlock :: "nat \<Rightarrow> monitoringState \<Rightarrow> monitoringState" where
  "catchBlock i st =
     updatePlateStatus (plateId (plates st ! i))
       \<lparr>u_status = Some Error, u_lastChecked = None, u_alertSent = None\<rparr> st"

text \<open>A task goes on with what the promise it awaited settled to.\<close>

fun resume :: "nat \<Rightarrow> task \<Rightarrow> exn + bool \<Rightarrow> monitoringState \<Rightarrow> monitoringState \<times> task option" where
  "resume t (i, AwaitProbe) (Inl e) st = nextPlate t (Suc i) (catchBlock i st)"
| "resume t (i, AwaitProbe) (Inr found) st =
     (if found \<and> \<not> alertSent (plates st ! i) then
        (let st2 = updatePlateStatus (plateId (plates st ! i))
                     \<lparr>u_status = Some Found, u_lastChecked = None, u_alertSent = None\<rparr> st
         in (st2\<lparr>smsLog := smsLog st2 @
                    [(i, phoneNumber (plates st2 ! i), plateNumber (plates st2 ! i))]\<rparr>,
             Some (i, AwaitSMS)))
      else if found \<and> alertSent (plates st ! i) then
        (updatePlateStatus (plateId (plates st ! i))
           \<lparr>u_status = Some Found, u_lastChecked = None, u_alertSent = None\<rparr> st,
         Some (i, AwaitDelay))
      else
        (updatePlateStatus (plateId (plates st ! i))
           \<lparr>u_status = Some Clear, u_lastChecked = None, u_alertSent = Some False\<rparr> st,
         Some (i, AwaitDelay)))"
| "resume t (i, AwaitSMS) (Inl e) st = nextPlate t (Suc i) (catchBlock i st)"
| "resume t (i, AwaitSMS) (Inr ok) st =
     (updatePlateStatus (plateId (plates st ! i))
        \<lparr>u_status = None, u_lastChecked = None, u_alertSent = Some True\<rparr> st,
      Some (i, AwaitDelay))"
| "resume t (i, AwaitDelay) v st = nextPlate t (Suc i) st"

definition startCycle :: "nat \<Rightarrow> nat \<Rightarrow> system \<Rightarrow> system" where
  "startCycle t0 t1 s =
     (if \<not> isActive (mon s) \<or> length (plates (mon s)) = 0 then s
      else
        (case nextPlate t1 0 ((mon s)\<lparr>lastCheckTime := Some t0\<rparr>) of
           (st', None) \<Rightarrow> s\<lparr>mon := st'\<rparr>
         | (st', Some tk) \<Rightarrow> s\<lparr>mon := st', running := running s @ [tk]\<rparr>))"

fun step :: "event \<Rightarrow> system \<Rightarrow> system" where
  "step (Run t0 t1) s = startCycle t0 t1 s"
| "step (Tick t0 t1) s = (if isActive (mon s) then startCycle t0 t1 s else s)"
| "step (Settle k v t) s =
     (if k < length (running s) then
        (case resume t (running s ! k) v (mon s) of
           (st', None) \<Rightarrow> s\<lparr>mon := st', running := take k (running s) @ drop (Suc k) (running s)\<rparr>
         | (st', Some tk) \<Rightarrow> s\<lparr>mon := st', running := (running s)[k := tk]\<rparr>)
      else s)"

text \<open>A schedule is a list of events, handled one after the other.\<close>

fun schedule :: "event list \<Rightarrow> system \<Rightarrow> system" where
  "schedule [] s = s"
| "schedule (ev # evs) s = schedule evs (step ev s)"

text \<open>
  An invocation that is alone on the event loop: the promise its task awaits settles
  to what the environment of the cycle says for that plate, and nothing else is
  scheduled. \<open>alone env n\<close> handles up to \<open>n\<close> such events.
\<close>

definition settles :: "env \<Rightarrow> task \<Rightarrow> monitoringState \<Rightarrow> exn + bool" where
  "settles env tk st =
     (case tk of
        (i, AwaitProbe) \<Rightarrow> checkEVGForPlate env i (plateNumber (plates st ! i))
      | (i, AwaitSMS) \<Rightarrow>
          sendSMS env i (phoneNumber (plates st ! i)) (plateNumber (plates st ! i))
      | (i, AwaitDelay) \<Rightarrow> Inr True)"

fun alone :: "env \<Rightarrow> nat \<Rightarrow> system \<Rightarrow> system" where
  "alone env 0 s = s"
| "alone env (Suc n) s =
     (case running s of
        [] \<Rightarrow> s
      | tk # others \<Rightarrow>
          alone env n (step (Settle 0 (settles env tk (mon s)) (dateAt env (Suc (fst tk)))) s))"

text \<open>The event loop with the one task, if any, that a synchronous run has left.\<close>

definition sysOf :: "monitoringState \<times> task option \<Rightarrow> system" where
  "sysOf r = \<lparr>mon = fst r, running = (case snd r of None \<Rightarrow> [] | Some tk \<Rightarrow> [tk])\<rparr>"

definition atHead :: "env \<Rightarrow> nat \<Rightarrow> monitoringState \<Rightarrow> system" where
  "atHead env i st = sysOf (nextPlate (dateAt env i) i st)"

text \<open>
  Ticks of which each comes when the invocation before it has ended: the invocation
  that a tick starts runs alone, for up to the given number of events.
\<close>

fun ticksAlone :: "(env \<times> nat) list \<Rightarrow> system \<Rightarrow> system" where
  "ticksAlone [] s = s"
| "ticksAlone ((e, n) # r) s =
     ticksAlone r (alone e n (step (Tick (dateAtStart e) (dateAt e 0)) s))"

section \<open>Successive cycles and what one iteration leaves\<close>

text \<open>
  Ticks that come after the previous cycle has ended run the cycles one after the
  other, each in the environment of its time.
\<close>

fun runCycles :: "env list \<Rightarrow> monitoringState \<Rightarrow> exn + monitoringState" where
  "runCycles [] st = Inr st"
| "runCycles (e # es) st =
     (case performMonitoringCycle e st of Inl x \<Rightarrow> Inl x | Inr st' \<Rightarrow> runCycles es st')"

text \<open>The number of calls to \<^verbatim>\<open>sendSMS\<close> made for the plate at position \<open>i\<close>.\<close>

definition callsFor :: "nat \<Rightarrow> monitoringState \<Rightarrow> nat" where
  "callsFor i st = length (filter (\<lambda>c. fst c = i) (smsLog st))"

text \<open>
  Two summaries, used to state what the loop computes; \<open>processPlate_at\<close> below proves
  that they are what \<open>processPlate\<close> does to a plate when the identifiers of the
  registry are pairwise different: the plate after its iteration, and the calls to
  \<^verbatim>\<open>sendSMS\<close> the iteration makes.
\<close>

definition afterIteration :: "env \<Rightarrow> nat \<Rightarrow> plate \<Rightarrow> plate" where
  "afterIteration env i p =
     (case checkEVGForPlate env i (plateNumber p) of
        Inl e \<Rightarrow> p\<lparr>lastChecked := Some (dateAt env i), status := Error\<rparr>
      | Inr found \<Rightarrow>
          if found \<and> \<not> alertSent p then
            (case sendSMS env i (phoneNumber p) (plateNumber p) of
               Inl e \<Rightarrow> p\<lparr>lastChecked := Some (dateAt env i), status := Error\<rparr>
             | Inr ok \<Rightarrow> p\<lparr>lastChecked := Some (dateAt env i), status := Found, alertSent := True\<rparr>)
          else if found then p\<lparr>lastChecked := Some (dateAt env i), status := Found\<rparr>
          else p\<lparr>lastChecked := Some (dateAt env i), status := Clear, alertSent := False\<rparr>)"

definition callsMade :: "env \<Rightarrow> nat \<Rightarrow> plate \<Rightarrow> (nat \<times> json \<times> string) list" where
  "callsMade env i p =
     (if checkEVGForPlate env i (plateNumber p) = Inr True \<and> \<not> alertSent p
      then [(i, phoneNumber p, plateNumber p)] else [])"

text \<open>The state a cycle leaves when it does not return at its first test.\<close>

definition ranCycle :: "env \<Rightarrow> monitoringState \<Rightarrow> monitoringState" where
  "ranCycle env st = cycleLoop env 0 (st\<lparr>lastCheckTime := Some (dateAtStart env)\<rparr>)"

section \<open>Example states\<close>

text \<open>Two tracked plates, as the add handler creates them, in a monitor that is active.\<close>

definition plateE1 :: plate where
  "plateE1 =
     \<lparr>plateId = ''1'', plateNumber = ''E1'', phoneNumber = JStr ''+971500000001'',
      status = Pending, lastChecked = None, alertSent = False\<rparr>"

definition plateE2 :: plate where
  "plateE2 =
     \<lparr>plateId = ''2'', plateNumber = ''E2'', phoneNumber = JStr ''+971500000002'',
      status = Pending, lastChecked = None, alertSent = False\<rparr>"

definition twoPlates :: monitoringState where
  "twoPlates =
     \<lparr>isActive = True, checkInterval = 15, plates = [plateE1, plateE2],
      lastCheckTime = None, smsLog = []\<rparr>"

text \<open>
  Environments of a cycle: the page lists a fine for every plate and the messages go
  out; the page lists no fine; the page cannot be loaded; the page lists a fine but
  the message service rejects every message; the page cannot be loaded for the plate
  E1 and lists a fine for any other plate.
\<close>

definition fineListed :: env where
  "fineListed =
     \<lparr>dateAtStart = 3000, dateAt = (\<lambda>i. 3001 + i),
      checkEVGForPlate = (\<lambda>i n. Inr True),
      sendSMS = (\<lambda>i ph n. Inr True)\<rparr>"

definition noFine :: env where
  "noFine =
     \<lparr>dateAtStart = 4000, dateAt = (\<lambda>i. 4001 + i),
      checkEVGForPlate = (\<lambda>i n. Inr False),
      sendSMS = (\<lambda>i ph n. Inr True)\<rparr>"

definition probeDown :: env where
  "probeDown =
     \<lparr>dateAtStart = 5000, dateAt = (\<lambda>i. 5001 + i),
      checkEVGForPlate = (\<lambda>i n. Inl ''Navigation timeout''),
      sendSMS = (\<lambda>i ph n. Inr True)\<rparr>"


definition probeDownForE1 :: env where
  "probeDownForE1 =
     \<lparr>dateAtStart = 1000, dateAt = (\<lambda>i. 1001 + i),
      checkEVGForPlate = (\<lambda>i n. if n = ''E1'' then Inl ''Navigation timeout'' else Inr True),
      sendSMS = (\<lambda>i ph n. Inr True)\<rparr>"

text \<open>
  The registry after a cycle in which both alerts went out, and after a next cycle in
  which the page could not be loaded.
\<close>

definition bothAlerted :: monitoringState where
  "bothAlerted =
     \<lparr>isActive = True, checkInterval = 15,
      plates = [plateE1\<lparr>lastChecked := Some 3001, status := Found, alertSent := True\<rparr>,
                plateE2\<lparr>lastChecked := Some 3002, status := Found, alertSent := True\<rparr>],
      lastCheckTime = Some 3000,
      smsLog = [(0, JStr ''+971500000001'', ''E1''), (1, JStr ''+971500000002'', ''E2'')]\<rparr>"

definition afterOutage :: monitoringState where
  "afterOutage =
     \<lparr>isActive = True, checkInterval = 15,
      plates = [plateE1\<lparr>lastChecked := Some 5001, status := Error, alertSent := True\<rparr>,
                plateE2\<lparr>lastChecked := Some 5002, status := Error, alertSent := True\<rparr>],
      lastCheckTime = Some 5000,
      smsLog = [(0, JStr ''+971500000001'', ''E1''), (1, JStr ''+971500000002'', ''E2'')]\<rparr>"

text \<open>
  Two plates that were added in the same millisecond and so have the same identifier,
  in a monitor that is active; an environment in which the page cannot be loaded for
  the plate E2 and lists a fine for any other plate; the registry of the two plates
  after a cycle in which the page listed a fine for both.
\<close>

definition twinE1 :: plate where
  "twinE1 =
     \<lparr>plateId = ''1700000000000'', plateNumber = ''E1'', phoneNumber = JStr ''+971500000001'',
      status = Pending, lastChecked = None, alertSent = False\<rparr>"

definition twinE2 :: plate where
  "twinE2 =
     \<lparr>plateId = ''1700000000000'', plateNumber = ''E2'', phoneNumber = JStr ''+971500000002'',
      status = Pending, lastChecked = None, alertSent = False\<rparr>"

definition twins :: monitoringState where
  "twins =
     \<lparr>isActive = True, checkInterval = 15, plates = [twinE1, twinE2],
      lastCheckTime = None, smsLog = []\<rparr>"

definition probeDownForE2 :: env where
  "probeDownForE2 =
     \<lparr>dateAtStart = 6000, dateAt = (\<lambda>i. 6001 + i),
      checkEVGForPlate = (\<lambda>i n. if n = ''E2'' then Inl ''Navigation timeout'' else Inr True),
      sendSMS = (\<lambda>i ph n. Inr True)\<rparr>"

definition twinsAlerted :: monitoringState where
  "twinsAlerted =
     \<lparr>isActive = True, checkInterval = 15,
      plates = [twinE1\<lparr>lastChecked := Some 3002, status := Found, alertSent := True\<rparr>, twinE2],
      lastCheckTime = Some 3000,
      smsLog = [(0, JStr ''+971500000001'', ''E1''), (1, JStr ''+971500000002'', ''E2'')]\<rparr>"

text \<open>Plates and identifiers of the examples of the registry operations.\<close>

definition plateABC123 :: plate where
  "plateABC123 =
     \<lparr>plateId = ''1700000000000'', plateNumber = ''ABC123'', phoneNumber = JStr ''+971500000000'',
      status = Pending, lastChecked = None, alertSent = False\<rparr>"

definition batchIds :: "nat \<Rightarrow> string" where
  "batchIds k = (if k = 0 then ''17000000000000.41'' else ''17000000000000.87'')"

definition plateX1 :: plate where
  "plateX1 =
     \<lparr>plateId = ''17000000000000.41'', plateNumber = ''X1'', phoneNumber = JStr ''p1'',
      status = Pending, lastChecked = None, alertSent = False\<rparr>"

definition plateA1 :: plate where
  "plateA1 =
     \<lparr>plateId = ''1700000000001'', plateNumber = ''A1'', phoneNumber = JStr ''+971500000001'',
      status = Pending, lastChecked = None, alertSent = False\<rparr>"

definition plateB2 :: plate where
  "plateB2 =
     \<lparr>plateId = ''1700000000002'', plateNumber = ''B2'', phoneNumber = JStr ''+971500000002'',
      status = Pending, lastChecked = None, alertSent = False\<rparr>"

text \<open>Elements of a bulk request.\<close>

definition entryX1 :: json where
  "entryX1 = JObj [(''plateNumber'', JStr ''X1''), (''phoneNumber'', JStr ''p1'')]"

definition entryX1again :: json where
  "entryX1again = JObj [(''plateNumber'', JStr ''x1''), (''phoneNumber'', JStr ''p2'')]"

definition entryNumber7 :: json where
  "entryNumber7 = JObj [(''plateNumber'', JNum 7), (''phoneNumber'', JStr ''p3'')]"

text \<open>The event loop with no invocation in flight.\<close>

definition idle :: system where
  "idle = \<lparr>mon = twoPlates, running = []\<rparr>"

section \<open>Lookup by identifier\<close>

lemma findIndex_None_iff: "findIndex P xs = None \<longleftrightarrow> (\<forall>x \<in> set xs. \<not> P x)"
  by (induction xs) auto

lemma findIndex_Some_less: "findIndex P xs = Some k \<Longrightarrow> k < length xs \<and> P (xs ! k)"
  by (induction xs arbitrary: k) (auto split: if_splits)

text \<open>With identifiers that are pairwise different, a plate is found at its own position.\<close>

lemma findIndex_distinct_nth:
  "distinct (map f xs) \<Longrightarrow> i < length xs \<Longrightarrow> findIndex (\<lambda>x. f x = f (xs ! i)) xs = Some i"
proof (induction xs arbitrary: i)
  case Nil
  then show ?case by simp
next
  case (Cons x xs)
  show ?case
  proof (cases i)
    case 0
    then show ?thesis by simp
  next
    case (Suc j)
    with Cons.prems have "j < length xs" and "f (xs ! j) \<in> f ` set xs" and "f x \<notin> f ` set xs"
      by auto
    then have "f x \<noteq> f (xs ! j)" by metis
    with Cons.IH [of j] Cons.prems Suc show ?thesis by simp
  qed
qed

lemma updatePlateStatus_unknown_id:
  assumes "pid \<notin> plateId ` set (plates st)"
  shows "updatePlateStatus pid u st = st"
proof -
  from assms have "findIndex (\<lambda>p. plateId p = pid) (plates st) = None"
    by (auto simp: findIndex_None_iff)
  then show ?thesis by (simp add: updatePlateStatus_def)
qed

lemma removePlate_id_gone:
  assumes "distinct (map plateId (plates st))" and "removePlate pid st = (Inr p, st')"
  shows "pid \<notin> plateId ` set (plates st')"
proof -
  from assms(2) obtain k where k: "findIndex (\<lambda>p. plateId p = pid) (plates st) = Some k"
    and st': "st' = st\<lparr>plates := take k (plates st) @ drop (Suc k) (plates st)\<rparr>"
    by (auto simp: removePlate_def split: option.splits)
  from findIndex_Some_less [OF k]
  have kl: "k < length (plates st)" and pk: "plateId (plates st ! k) = pid"
    by auto
  from kl have "plates st = take k (plates st) @ (plates st ! k) # drop (Suc k) (plates st)"
    by (simp add: id_take_nth_drop)
  then have "map plateId (plates st) =
      map plateId (take k (plates st)) @ pid # map plateId (drop (Suc k) (plates st))"
    using pk by (metis list.simps(9) map_append)
  with assms(1) have "pid \<notin> set (map plateId (take k (plates st))) \<and>
      pid \<notin> set (map plateId (drop (Suc k) (plates st)))"
    by (metis distinct_append distinct.simps(2) disjoint_iff list.set_intros(1) Un_iff
        set_append not_distinct_conv_prefix)
  then show ?thesis by (auto simp: st')
qed

section \<open>The cycle when identifiers are pairwise different\<close>

lemma length_updatePlateStatus [simp]:
  "length (plates (updatePlateStatus pid u st)) = length (plates st)"
  by (simp add: updatePlateStatus_def split: option.splits)

lemma map_update_same [simp]: "(map f xs)[i := f (xs ! i)] = map f xs"
  by (metis list_update_id map_update)

lemma updatePlateStatus_at:
  assumes "distinct (map plateId (plates st))" and "i < length (plates st)"
    and "plateId (plates st ! i) = pid"
  shows "updatePlateStatus pid u st =
           st\<lparr>plates := (plates st)[i := objectAssign (plates st ! i) u]\<rparr>"
  using findIndex_distinct_nth [OF assms(1,2)] assms(3) by (auto simp add: updatePlateStatus_def)

lemma processPlate_at:
  assumes "distinct (map plateId (plates st))" and "i < length (plates st)"
  shows "processPlate env i st =
           st\<lparr>smsLog := smsLog st @ callsMade env i (plates st ! i),
              plates := (plates st)[i := afterIteration env i (plates st ! i)]\<rparr>"
  using assms
  by (simp add: processPlate_def tryBlock_def Let_def updatePlateStatus_at map_update
        afterIteration_def callsMade_def objectAssign_def Let_def
      split: sum.splits prod.splits)


lemma updatePlateStatus_frame [simp]:
  "isActive (updatePlateStatus pid u st) = isActive st"
  "checkInterval (updatePlateStatus pid u st) = checkInterval st"
  "lastCheckTime (updatePlateStatus pid u st) = lastCheckTime st"
  "smsLog (updatePlateStatus pid u st) = smsLog st"
  by (simp_all add: updatePlateStatus_def split: option.splits)

lemma processPlate_frame [simp]:
  "isActive (processPlate env i st) = isActive st"
  "checkInterval (processPlate env i st) = checkInterval st"
  "lastCheckTime (processPlate env i st) = lastCheckTime st"
  "length (plates (processPlate env i st)) = length (plates st)"
  by (simp_all add: processPlate_def tryBlock_def Let_def split: sum.splits prod.splits)

lemma plateId_afterIteration [simp]: "plateId (afterIteration env i p) = plateId p"
  by (simp add: afterIteration_def split: sum.splits)

lemma processPlate_ids:
  assumes "distinct (map plateId (plates st))" and "i < length (plates st)"
  shows "map plateId (plates (processPlate env i st)) = map plateId (plates st)"
  by (simp add: processPlate_at [OF assms] map_update)

lemma cycleLoop_frame:
  "isActive (cycleLoop env i st) = isActive st \<and>
   checkInterval (cycleLoop env i st) = checkInterval st \<and>
   lastCheckTime (cycleLoop env i st) = lastCheckTime st \<and>
   length (plates (cycleLoop env i st)) = length (plates st)"
proof (induction env i st rule: cycleLoop.induct)
  case (1 env i st)
  show ?case
  proof (cases "i < length (plates st)")
    case True
    with "1.IH" show ?thesis by (subst (1 2 3 4) cycleLoop.simps) simp
  next
    case False
    then show ?thesis by (subst (1 2 3 4) cycleLoop.simps) simp
  qed
qed

lemma cycleLoop_plates:
  assumes "distinct (map plateId (plates st))" and "j < length (plates st)"
  shows "plates (cycleLoop env i st) ! j =
           (if i \<le> j then afterIteration env j (plates st ! j) else plates st ! j)"
  using assms
proof (induction env i st rule: cycleLoop.induct)
  case (1 env i st)
  show ?case
  proof (cases "i < length (plates st)")
    case True
    let ?st' = "processPlate env i st"
    have ids: "distinct (map plateId (plates ?st'))"
      using processPlate_ids [OF "1.prems"(1) True] "1.prems"(1) by simp
    have j: "j < length (plates ?st')"
      using "1.prems"(2) by simp
    have nth: "plates ?st' ! j = (if j = i then afterIteration env i (plates st ! i) else plates st ! j)"
      using "1.prems" True by (simp add: processPlate_at nth_list_update)
    have "plates (cycleLoop env i st) ! j = plates (cycleLoop env (Suc i) ?st') ! j"
      using True by (subst cycleLoop.simps) simp
    also have "\<dots> = (if Suc i \<le> j then afterIteration env j (plates ?st' ! j) else plates ?st' ! j)"
      using "1.IH" [OF True ids j] .
    also have "\<dots> = (if i \<le> j then afterIteration env j (plates st ! j) else plates st ! j)"
      using nth by (cases "j = i") auto
    finally show ?thesis .
  next
    case False
    with "1.prems" show ?thesis by (subst cycleLoop.simps) simp
  qed
qed

lemma cycleLoop_smsLog:
  assumes "distinct (map plateId (plates st))"
  shows "smsLog (cycleLoop env i st) =
           smsLog st @ concat (map (\<lambda>j. callsMade env j (plates st ! j)) [i..<length (plates st)])"
  using assms
proof (induction env i st rule: cycleLoop.induct)
  case (1 env i st)
  show ?case
  proof (cases "i < length (plates st)")
    case True
    let ?st' = "processPlate env i st"
    have ids: "distinct (map plateId (plates ?st'))"
      using processPlate_ids [OF "1.prems"(1) True] "1.prems"(1) by simp
    have later: "plates ?st' ! j = plates st ! j" if "j \<in> set [Suc i..<length (plates st)]" for j
      using that "1.prems" True by (simp add: processPlate_at)
    have "smsLog (cycleLoop env i st) = smsLog (cycleLoop env (Suc i) ?st')"
      using True by (subst cycleLoop.simps) simp
    also have "\<dots> = smsLog ?st' @
        concat (map (\<lambda>j. callsMade env j (plates ?st' ! j)) [Suc i..<length (plates st)])"
      using "1.IH" [OF True ids] by simp
    also have "map (\<lambda>j. callsMade env j (plates ?st' ! j)) [Suc i..<length (plates st)] =
        map (\<lambda>j. callsMade env j (plates st ! j)) [Suc i..<length (plates st)]"
      using later by (intro map_cong) auto
    also have "smsLog ?st' = smsLog st @ callsMade env i (plates st ! i)"
      using "1.prems" True by (simp add: processPlate_at)
    finally show ?thesis
      using True by (simp add: upt_conv_Cons)
  next
    case False
    then show ?thesis by (subst cycleLoop.simps) simp
  qed
qed

lemma afterIteration_keeps [simp]:
  "plateNumber (afterIteration env i p) = plateNumber p"
  "phoneNumber (afterIteration env i p) = phoneNumber p"
  by (simp_all add: afterIteration_def split: sum.splits)

lemma filter_calls_upt:
  "filter (\<lambda>c. fst c = i) (concat (map (\<lambda>j. callsMade env j (ps ! j)) [a..<n])) =
     (if a \<le> i \<and> i < n then callsMade env i (ps ! i) else [])"
proof (induction n)
  case 0
  then show ?case by simp
next
  case (Suc n)
  have own: "filter (\<lambda>c. fst c = i) (callsMade env n (ps ! n)) =
      (if n = i then callsMade env i (ps ! i) else [])"
    by (simp add: callsMade_def)
  show ?case
  proof (cases "a \<le> n")
    case True
    then have "[a..<Suc n] = [a..<n] @ [n]" by simp
    then have "filter (\<lambda>c. fst c = i) (concat (map (\<lambda>j. callsMade env j (ps ! j)) [a..<Suc n])) =
        (if a \<le> i \<and> i < n then callsMade env i (ps ! i) else []) @
        (if n = i then callsMade env i (ps ! i) else [])"
      using Suc own by simp
    also have "\<dots> = (if a \<le> i \<and> i < Suc n then callsMade env i (ps ! i) else [])"
      using True by (cases "n = i") auto
    finally show ?thesis .
  next
    case False
    then show ?thesis by auto
  qed
qed

text \<open>What a cycle that runs leaves.\<close>

lemma performMonitoringCycle_ran:
  "isActive st \<Longrightarrow> plates st \<noteq> [] \<Longrightarrow> performMonitoringCycle env st = Inr (ranCycle env st)"
  by (simp add: performMonitoringCycle_def ranCycle_def)

lemma ranCycle_frame [simp]:
  "isActive (ranCycle env st) = isActive st"
  "checkInterval (ranCycle env st) = checkInterval st"
  "lastCheckTime (ranCycle env st) = Some (dateAtStart env)"
  "length (plates (ranCycle env st)) = length (plates st)"
  by (simp_all add: ranCycle_def cycleLoop_frame)

lemma ranCycle_nonempty [simp]: "plates (ranCycle env st) = [] \<longleftrightarrow> plates st = []"
  using ranCycle_frame(4) [of env st] by (metis length_0_conv)

lemma ranCycle_plates:
  assumes "distinct (map plateId (plates st))" and "j < length (plates st)"
  shows "plates (ranCycle env st) ! j = afterIteration env j (plates st ! j)"
proof -
  have "distinct (map plateId (plates (st\<lparr>lastCheckTime := Some (dateAtStart env)\<rparr>)))"
    using assms(1) by simp
  from cycleLoop_plates [OF this, of j env 0] assms(2) show ?thesis
    by (simp add: ranCycle_def)
qed

lemma ranCycle_ids:
  assumes "distinct (map plateId (plates st))"
  shows "map plateId (plates (ranCycle env st)) = map plateId (plates st)"
  by (rule nth_equalityI) (simp_all add: ranCycle_plates [OF assms])

lemma ranCycle_distinct [simp]:
  "distinct (map plateId (plates st)) \<Longrightarrow> distinct (map plateId (plates (ranCycle env st)))"
  by (simp add: ranCycle_ids)

lemma ranCycle_calls:
  assumes "distinct (map plateId (plates st))" and "j < length (plates st)"
  shows "callsFor j (ranCycle env st) = callsFor j st + length (callsMade env j (plates st ! j))"
proof -
  have "distinct (map plateId (plates (st\<lparr>lastCheckTime := Some (dateAtStart env)\<rparr>)))"
    using assms(1) by simp
  from cycleLoop_smsLog [OF this, of env 0] assms(2) show ?thesis
    by (simp add: ranCycle_def callsFor_def filter_calls_upt)
qed

text \<open>While the page keeps listing the fine of a plate already alerted, no call is made.\<close>

lemma still_listed_no_calls:
  assumes "distinct (map plateId (plates st))" and "isActive st" and "i < length (plates st)"
    and "alertSent (plates st ! i)"
    and "\<forall>e \<in> set es. checkEVGForPlate e i (plateNumber (plates st ! i)) = Inr True"
  shows "\<exists>st'. runCycles es st = Inr st' \<and> callsFor i st' = callsFor i st"
  using assms
proof (induction es arbitrary: st)
  case Nil
  then show ?case by simp
next
  case (Cons e es)
  let ?st1 = "ranCycle e st"
  from Cons.prems(3) have ne: "plates st \<noteq> []" by auto
  have run: "performMonitoringCycle e st = Inr ?st1"
    using Cons.prems(2) ne by (simp add: performMonitoringCycle_ran)
  have found: "checkEVGForPlate e i (plateNumber (plates st ! i)) = Inr True"
    using Cons.prems(5) by simp
  have p1: "plates ?st1 ! i = (plates st ! i)\<lparr>lastChecked := Some (dateAt e i), status := Found\<rparr>"
    using found Cons.prems(4) by (simp add: ranCycle_plates [OF Cons.prems(1,3)] afterIteration_def)
  have calls: "callsFor i ?st1 = callsFor i st"
    using Cons.prems(4) by (simp add: ranCycle_calls [OF Cons.prems(1,3)] callsMade_def)
  have "\<exists>st'. runCycles es ?st1 = Inr st' \<and> callsFor i st' = callsFor i ?st1"
  proof (rule Cons.IH)
    show "distinct (map plateId (plates ?st1))" using Cons.prems(1) by simp
    show "isActive ?st1" using Cons.prems(2) by simp
    show "i < length (plates ?st1)" using Cons.prems(3) by simp
    show "alertSent (plates ?st1 ! i)" using Cons.prems(4) by (simp add: p1)
    show "\<forall>e \<in> set es. checkEVGForPlate e i (plateNumber (plates ?st1 ! i)) = Inr True"
      using Cons.prems(5) by (simp add: p1)
  qed
  with run calls show ?case by simp
qed

text \<open>Unfolding the examples and the code on concrete states.\<close>

lemmas example_defs = twoPlates_def plateE1_def plateE2_def

lemmas code_defs = performMonitoringCycle_def cycleLoop.simps processPlate_def tryBlock_def
  updatePlateStatus_def objectAssign_def

lemmas twin_defs = twins_def twinE1_def twinE2_def

lemmas loop_defs = idle_def example_defs startCycle_def nextPlate_def catchBlock_def
  updatePlateStatus_def objectAssign_def

section \<open>Plate numbers without regard to case\<close>

lemma toUpperCaseChar_idem [simp]: "toUpperCaseChar (toUpperCaseChar c) = toUpperCaseChar c"
proof (cases "97 \<le> (of_char c :: nat) \<and> (of_char c :: nat) \<le> 122")
  case True
  define n where "n = (of_char c :: nat)"
  from True have n: "97 \<le> n" "n \<le> 122" by (simp_all add: n_def)
  then have "n - 32 < 256" by linarith
  then have small: "(n - 32) mod 256 = n - 32" by (rule mod_less)
  from n have "\<not> 97 \<le> n - 32" by linarith
  with small n show ?thesis
    by (simp add: toUpperCaseChar_def Let_def n_def [symmetric])
next
  case False
  then have "toUpperCaseChar c = c" by (auto simp: toUpperCaseChar_def Let_def)
  then show ?thesis by simp
qed

lemma toUpperCase_idem [simp]: "toUpperCase (toUpperCase s) = toUpperCase s"
  by (simp add: toUpperCase_def)

lemma upper_literals:
  "toUpperCase ''abc123'' = ''ABC123''" "toUpperCase ''ABC123'' = ''ABC123''"
  "toUpperCase ''X1'' = ''X1''" "toUpperCase ''x1'' = ''X1''"
  "toUpperCase ''A1'' = ''A1''" "toUpperCase ''B2'' = ''B2''" "toUpperCase ''a1'' = ''A1''"
  by code_simp+

lemma upper_twins: "toUpperCase ''E1'' = ''E1''" "toUpperCase ''E2'' = ''E2''"
  by code_simp+

section \<open>The bulk handler\<close>

lemma case_find_const:
  "(case find P xs of None \<Rightarrow> a | Some x \<Rightarrow> b) = (if \<exists>x \<in> set xs. P x then b else a)"
proof (cases "find P xs")
  case None
  then have "\<not> (\<exists>x \<in> set xs. P x)" by (auto simp: find_None_iff)
  with None show ?thesis by simp
next
  case (Some x)
  then have "\<exists>x \<in> set xs. P x" by (auto simp: find_Some_iff)
  with Some show ?thesis by simp
qed

lemma bulkEntry_cases:
  "bulkEntry nid e (a, er, s) =
     (if e = JNull then Inl ''TypeError: Cannot destructure property plateNumber of null''
      else if \<not> toBoolean (getMember ''plateNumber'' e) \<or> \<not> toBoolean (getMember ''phoneNumber'' e)
      then Inr (a, er @ [(getMember ''plateNumber'' e, ''Missing plate number or phone number'')], s)
      else
        (case getMember ''plateNumber'' e of
           Some (JStr n) \<Rightarrow>
             if \<exists>p \<in> set (plates s). toUpperCase (plateNumber p) = toUpperCase n
             then Inr (a, er @ [(Some (JStr n), ''Already exists'')], s)
             else Inr (a @ [newPlate nid n (the (getMember ''phoneNumber'' e))], er,
                       s\<lparr>plates := plates s @
                            [newPlate nid n (the (getMember ''phoneNumber'' e))]\<rparr>)
         | _ \<Rightarrow> Inl ''TypeError: plateNumber.toUpperCase is not a function''))"
  by (simp add: bulkEntry_def Let_def case_find_const split: option.splits json.splits)

lemma bulkEntry_throws_iff: "(\<exists>x. bulkEntry nid e acc = Inl x) \<longleftrightarrow> throwsOn e"
proof (cases acc)
  case (fields a er s)
  show ?thesis
    unfolding fields bulkEntry_cases throwsOn_def
    by (auto split: option.splits json.splits)
qed


lemma bulkEntry_ok:
  assumes "\<not> throwsOn e"
  obtains n1 e1 s1 where "bulkEntry nid e (a, er, s) = Inr (a @ n1, er @ e1, s1)"
    and "length n1 + length e1 = 1" and "plates s1 = plates s @ n1"
    and "isActive s1 = isActive s" and "checkInterval s1 = checkInterval s"
    and "lastCheckTime s1 = lastCheckTime s" and "smsLog s1 = smsLog s"
proof -
  let ?pn = "getMember ''plateNumber'' e" and ?ph = "getMember ''phoneNumber'' e"
  from assms have nn: "e \<noteq> JNull" by (simp add: throwsOn_def)
  show thesis
  proof (cases "\<not> toBoolean ?pn \<or> \<not> toBoolean ?ph")
    case True
    with nn have "bulkEntry nid e (a, er, s) =
        Inr (a @ [], er @ [(?pn, ''Missing plate number or phone number'')], s)"
      by (simp add: bulkEntry_cases)
    then show ?thesis by (rule that) simp_all
  next
    case False
    with assms obtain n where n: "?pn = Some (JStr n)"
      by (auto simp: throwsOn_def)
    show ?thesis
    proof (cases "\<exists>p \<in> set (plates s). toUpperCase (plateNumber p) = toUpperCase n")
      case True
      with nn False n have "bulkEntry nid e (a, er, s) =
          Inr (a @ [], er @ [(Some (JStr n), ''Already exists'')], s)"
        by (simp add: bulkEntry_cases)
      then show ?thesis by (rule that) simp_all
    next
      case nomatch: False
      let ?np = "newPlate nid n (the ?ph)"
      from nn False n nomatch have "bulkEntry nid e (a, er, s) =
          Inr (a @ [?np], er @ [], s\<lparr>plates := plates s @ [?np]\<rparr>)"
        by (simp add: bulkEntry_cases)
      then show ?thesis by (rule that) simp_all
    qed
  qed
qed

text \<open>
  When the callback throws on no element, every element gives one plate or one error,
  and the plates added are appended.
\<close>

lemma forEachEntry_shape:
  assumes "\<forall>e \<in> set es. \<not> throwsOn e"
  shows "\<exists>new errs s'. forEachEntry mkId k es (a, er, s) = Inr (a @ new, er @ errs, s') \<and>
      length new + length errs = length es \<and> plates s' = plates s @ new \<and>
      isActive s' = isActive s \<and> checkInterval s' = checkInterval s \<and>
      lastCheckTime s' = lastCheckTime s \<and> smsLog s' = smsLog s"
  using assms
proof (induction es arbitrary: k a er s)
  case Nil
  then show ?case by simp
next
  case (Cons e es)
  from Cons.prems have ok: "\<not> throwsOn e" and oks: "\<forall>e \<in> set es. \<not> throwsOn e"
    by simp_all
  from bulkEntry_ok [OF ok, of "mkId k" a er s]
  obtain n1 e1 s1 where step: "bulkEntry (mkId k) e (a, er, s) = Inr (a @ n1, er @ e1, s1)"
    and one: "length n1 + length e1 = 1" "plates s1 = plates s @ n1"
      "isActive s1 = isActive s" "checkInterval s1 = checkInterval s"
      "lastCheckTime s1 = lastCheckTime s" "smsLog s1 = smsLog s"
    by blast
  from Cons.IH [OF oks, of "Suc k" "a @ n1" "er @ e1" s1]
  obtain new errs s' where rest:
      "forEachEntry mkId (Suc k) es (a @ n1, er @ e1, s1) = Inr ((a @ n1) @ new, (er @ e1) @ errs, s')"
      "length new + length errs = length es" "plates s' = plates s1 @ new"
      "isActive s' = isActive s1" "checkInterval s' = checkInterval s1"
      "lastCheckTime s' = lastCheckTime s1" "smsLog s' = smsLog s1"
    by blast
  show ?case
  proof (intro exI conjI)
    show "forEachEntry mkId k (e # es) (a, er, s) = Inr (a @ (n1 @ new), er @ (e1 @ errs), s')"
      using step rest(1) by simp
    show "length (n1 @ new) + length (e1 @ errs) = length (e # es)"
      using one(1) rest(2) by simp
    show "plates s' = plates s @ (n1 @ new)"
      using one(2) rest(3) by simp
  qed (simp_all add: one rest)
qed

text \<open>
  The callback throws on the first element it throws on, after the elements before it
  have been handled.
\<close>

lemma forEachEntry_throws:
  assumes "\<forall>e \<in> set pre. \<not> throwsOn e" and "throwsOn e"
  shows "\<exists>x new errs s'. forEachEntry mkId k (pre @ e # rest) (a, er, s) =
           Inl (x, (a @ new, er @ errs, s')) \<and>
         forEachEntry mkId k pre (a, er, s) = Inr (a @ new, er @ errs, s') \<and>
         plates s' = plates s @ new"
  using assms(1)
proof (induction pre arbitrary: k a er s)
  case Nil
  from assms(2) obtain x where "bulkEntry (mkId k) e (a, er, s) = Inl x"
    using bulkEntry_throws_iff by blast
  then show ?case by (intro exI [of _ x] exI [of _ "[]"] exI [of _ s]) simp
next
  case (Cons y pre)
  from Cons.prems have ok: "\<not> throwsOn y" and oks: "\<forall>e \<in> set pre. \<not> throwsOn e"
    by simp_all
  from bulkEntry_ok [OF ok, of "mkId k" a er s]
  obtain n1 e1 s1 where step: "bulkEntry (mkId k) y (a, er, s) = Inr (a @ n1, er @ e1, s1)"
    and one: "plates s1 = plates s @ n1"
    by blast
  from Cons.IH [OF oks, of "Suc k" "a @ n1" "er @ e1" s1]
  obtain x new errs s' where rest:
      "forEachEntry mkId (Suc k) (pre @ e # rest) (a @ n1, er @ e1, s1) =
         Inl (x, ((a @ n1) @ new, (er @ e1) @ errs, s'))"
      "forEachEntry mkId (Suc k) pre (a @ n1, er @ e1, s1) = Inr ((a @ n1) @ new, (er @ e1) @ errs, s')"
      "plates s' = plates s1 @ new"
    by blast
  show ?case
  proof (intro exI conjI)
    show "forEachEntry mkId k ((y # pre) @ e # rest) (a, er, s) =
        Inl (x, (a @ (n1 @ new), er @ (e1 @ errs), s'))"
      using step rest(1) by simp
    show "forEachEntry mkId k (y # pre) (a, er, s) = Inr (a @ (n1 @ new), er @ (e1 @ errs), s')"
      using step rest(2) by simp
    show "plates s' = plates s @ (n1 @ new)"
      using one rest(3) by simp
  qed
qed

lemma forEachEntry_append:
  assumes "forEachEntry mkId k xs acc = Inr acc'"
  shows "forEachEntry mkId k (xs @ ys) acc = forEachEntry mkId (k + length xs) ys acc'"
  using assms
proof (induction xs arbitrary: k acc)
  case Nil
  then show ?case by simp
next
  case (Cons x xs)
  then show ?case by (cases "bulkEntry (mkId k) x acc") simp_all
qed

lemma forEachEntry_no_throw:
  assumes "forEachEntry mkId k es acc = Inr acc'"
  shows "\<forall>e \<in> set es. \<not> throwsOn e"
  using assms
proof (induction es arbitrary: k acc)
  case Nil
  then show ?case by simp
next
  case (Cons x es)
  show ?case
  proof (cases "bulkEntry (mkId k) x acc")
    case (Inl err)
    with Cons.prems show ?thesis by simp
  next
    case (Inr acc1)
    then have "\<not> throwsOn x"
      using bulkEntry_throws_iff [of "mkId k" x acc] by simp
    moreover from Inr Cons.prems have "forEachEntry mkId (Suc k) es acc1 = Inr acc'"
      by simp
    then have "\<forall>e \<in> set es. \<not> throwsOn e" by (rule Cons.IH)
    ultimately show ?thesis by simp
  qed
qed

text \<open>
  After a loop that did not throw, the number of every element that had a string for
  its number and a truthy phone number is the number of a plate of the registry, the
  element's own plate or one that was there before it.
\<close>

lemma bulkEntry_registers:
  assumes "getMember ''plateNumber'' e = Some (JStr n)" and "n \<noteq> []"
    and "toBoolean (getMember ''phoneNumber'' e)"
    and "bulkEntry nid e (a, er, s) = Inr (a1, er1, s1)"
  shows "\<exists>p \<in> set (plates s1). toUpperCase (plateNumber p) = toUpperCase n"
proof -
  from assms(1) have nn: "e \<noteq> JNull" by (auto simp: getMember_def)
  from assms(2) have tb: "toBoolean (Some (JStr n))" by (simp add: toBoolean_def)
  show ?thesis
  proof (cases "\<exists>p \<in> set (plates s). toUpperCase (plateNumber p) = toUpperCase n")
    case True
    with nn tb assms(1,3,4) have "s1 = s" by (simp add: bulkEntry_cases)
    with True show ?thesis by simp
  next
    case False
    with nn tb assms(1,3,4)
    have "plates s1 = plates s @ [newPlate nid n (the (getMember ''phoneNumber'' e))]"
      by (auto simp: bulkEntry_cases)
    then show ?thesis by (simp add: newPlate_def)
  qed
qed

lemma forEachEntry_registers:
  assumes "e \<in> set es" and "getMember ''plateNumber'' e = Some (JStr n)" and "n \<noteq> []"
    and "toBoolean (getMember ''phoneNumber'' e)"
    and "forEachEntry mkId k es (a, er, s) = Inr (a', er', s')"
  shows "\<exists>p \<in> set (plates s'). toUpperCase (plateNumber p) = toUpperCase n"
  using assms(1,5)
proof (induction es arbitrary: k a er s)
  case Nil
  then show ?case by simp
next
  case (Cons x es)
  from Cons.prems(2) obtain a1 er1 s1 where step: "bulkEntry (mkId k) x (a, er, s) = Inr (a1, er1, s1)"
    and rest: "forEachEntry mkId (Suc k) es (a1, er1, s1) = Inr (a', er', s')"
    by (cases "bulkEntry (mkId k) x (a, er, s)") auto
  show ?case
  proof (cases "e \<in> set es")
    case True
    from Cons.IH [OF True rest] show ?thesis .
  next
    case False
    with Cons.prems(1) have x: "x = e" by simp
    from bulkEntry_registers [OF assms(2,3,4) step [unfolded x]]
    obtain p where p: "p \<in> set (plates s1)" "toUpperCase (plateNumber p) = toUpperCase n"
      by blast
    from forEachEntry_shape [OF forEachEntry_no_throw [OF rest], of mkId "Suc k" a1 er1 s1] rest
    obtain new where "plates s' = plates s1 @ new"
      by auto
    with p show ?thesis by auto
  qed
qed

text \<open>What the bulk handler does on an element agrees with the add handler.\<close>

lemma truthy_toBoolean: "toBoolean (map_option JStr x) = truthy x"
  by (cases x) (simp_all add: toBoolean_def truthy_def)

lemma bulkEntry_as_addPlate:
  assumes "e \<noteq> JNull" and "getMember ''plateNumber'' e = map_option JStr pn"
    and "getMember ''phoneNumber'' e = map_option JStr ph"
  shows "bulkEntry nid e (a, er, s) =
     (case addPlate nid pn ph s of
        (Inr p, s1) \<Rightarrow> Inr (a @ [p], er, s1)
      | (Inl (c, msg), s1) \<Rightarrow>
          Inr (a, er @ [(getMember ''plateNumber'' e,
                 if truthy pn \<and> truthy ph then ''Already exists''
                 else ''Missing plate number or phone number'')], s))"
proof (cases "truthy pn \<and> truthy ph")
  case False
  with assms show ?thesis
    by (auto simp: bulkEntry_cases addPlate_def truthy_toBoolean)
next
  case True
  then obtain n c where pn: "pn = Some n" and ph: "ph = Some c"
    by (auto simp: truthy_def split: option.splits)
  from True assms pn ph show ?thesis
    by (simp add: bulkEntry_cases addPlate_def truthy_toBoolean [symmetric] case_find_const Let_def)
qed

lemma entry_members:
  "getMember ''plateNumber'' entryX1 = Some (JStr ''X1'')"
  "getMember ''phoneNumber'' entryX1 = Some (JStr ''p1'')"
  "getMember ''plateNumber'' entryX1again = Some (JStr ''x1'')"
  "getMember ''phoneNumber'' entryX1again = Some (JStr ''p2'')"
  "getMember ''plateNumber'' entryNumber7 = Some (JNum 7)"
  "getMember ''phoneNumber'' entryNumber7 = Some (JStr ''p3'')"
  "entryX1 \<noteq> JNull" "entryX1again \<noteq> JNull" "entryNumber7 \<noteq> JNull"
  by (simp_all add: getMember_def entryX1_def entryX1again_def entryNumber7_def)

lemma getMember_JStr: "getMember k (JStr v) = None"
  by (simp add: getMember_def)

section \<open>The handlers that keep plate numbers unique\<close>

lemma addPlate_unique:
  assumes "uniqueNumbers st"
  shows "uniqueNumbers (snd (addPlate nid pn ph st))"
proof (cases "find (\<lambda>p. toUpperCase (plateNumber p) = toUpperCase (the pn)) (plates st)")
  case None
  then have "toUpperCase (the pn) \<notin> (\<lambda>p. toUpperCase (plateNumber p)) ` set (plates st)"
    by (auto simp: find_None_iff)
  with assms None show ?thesis
    by (simp add: addPlate_def uniqueNumbers_def newPlate_def Let_def)
next
  case (Some p)
  with assms show ?thesis by (simp add: addPlate_def)
qed

lemma removePlate_unique:
  assumes "uniqueNumbers st"
  shows "uniqueNumbers (snd (removePlate pid st))"
proof (cases "findIndex (\<lambda>p. plateId p = pid) (plates st)")
  case None
  with assms show ?thesis by (simp add: removePlate_def)
next
  case (Some k)
  let ?f = "\<lambda>p. toUpperCase (plateNumber p)"
  let ?xs = "plates st"
  from findIndex_Some_less [OF Some] have "k < length ?xs" by simp
  then have "?xs = take k ?xs @ ?xs ! k # drop (Suc k) ?xs"
    by (rule id_take_nth_drop)
  then have "map ?f ?xs = map ?f (take k ?xs) @ ?f (?xs ! k) # map ?f (drop (Suc k) ?xs)"
    by (metis list.simps(9) map_append)
  with assms have "distinct (map ?f (take k ?xs) @ ?f (?xs ! k) # map ?f (drop (Suc k) ?xs))"
    by (simp add: uniqueNumbers_def)
  then have "distinct (map ?f (take k ?xs) @ map ?f (drop (Suc k) ?xs))"
    by auto
  with Some show ?thesis
    by (simp add: removePlate_def uniqueNumbers_def)
qed
lemma bulkEntry_unique:
  assumes "uniqueNumbers s" and "bulkEntry nid e (a, er, s) = Inr (a1, er1, s1)"
  shows "uniqueNumbers s1"
proof -
  from assms(2) have ok: "\<not> throwsOn e"
    using bulkEntry_throws_iff [of nid e "(a, er, s)"] by simp
  then have nn: "e \<noteq> JNull" by (simp add: throwsOn_def)
  let ?pn = "getMember ''plateNumber'' e" and ?ph = "getMember ''phoneNumber'' e"
  show ?thesis
  proof (cases "\<not> toBoolean ?pn \<or> \<not> toBoolean ?ph")
    case True
    with nn assms(2) have "s1 = s" by (simp add: bulkEntry_cases)
    with assms(1) show ?thesis by simp
  next
    case False
    with ok obtain n where n: "?pn = Some (JStr n)"
      by (auto simp: throwsOn_def)
    show ?thesis
    proof (cases "\<exists>p \<in> set (plates s). toUpperCase (plateNumber p) = toUpperCase n")
      case True
      with nn False n assms(2) have "s1 = s" by (simp add: bulkEntry_cases)
      with assms(1) show ?thesis by simp
    next
      case nomatch: False
      with nn False n assms(2)
      have s1: "plates s1 = plates s @ [newPlate nid n (the ?ph)]"
        by (auto simp: bulkEntry_cases)
      from nomatch
      have "toUpperCase n \<notin> (\<lambda>p. toUpperCase (plateNumber p)) ` set (plates s)"
        by auto
      with assms(1) s1 show ?thesis
        by (simp add: uniqueNumbers_def newPlate_def)
    qed
  qed
qed

text \<open>Also when the callback throws, the registry it leaves has unique numbers.\<close>

lemma forEachEntry_unique:
  assumes "uniqueNumbers s"
  shows "uniqueNumbers (snd (snd
      (case forEachEntry mkId k es (a, er, s) of Inl (x, acc) \<Rightarrow> acc | Inr acc \<Rightarrow> acc)))"
  using assms
proof (induction es arbitrary: k a er s)
  case Nil
  then show ?case by simp
next
  case (Cons e es)
  show ?case
  proof (cases "bulkEntry (mkId k) e (a, er, s)")
    case (Inl x)
    with Cons.prems show ?thesis by simp
  next
    case (Inr acc1)
    obtain a1 er1 s1 where acc1: "acc1 = (a1, er1, s1)"
      by (cases acc1) auto
    from bulkEntry_unique [OF Cons.prems] Inr acc1 have "uniqueNumbers s1"
      by simp
    from Cons.IH [OF this, of "Suc k" a1 er1] Inr acc1 show ?thesis
      by simp
  qed
qed

lemma bulkAdd_unique:
  assumes "uniqueNumbers st"
  shows "uniqueNumbers (snd (bulkAdd mkId body st))"
proof (cases "\<exists>es. body = Some (JArr es)")
  case True
  then obtain es where body: "body = Some (JArr es)" by blast
  from forEachEntry_unique [OF assms, of mkId 0 es "[]" "[]"] body show ?thesis
    by (auto simp: bulkAdd_def split: sum.splits prod.splits)
next
  case False
  with assms show ?thesis
    by (auto simp: bulkAdd_def split: option.splits json.splits)
qed


section \<open>A lone invocation on the event loop computes the cycle\<close>

lemma atHead_end: "\<not> i < length (plates st) \<Longrightarrow> atHead env i st = \<lparr>mon = st, running = []\<rparr>"
  by (simp add: atHead_def nextPlate_def sysOf_def)

lemma alone_single:
  "alone env (Suc n) (sysOf (st, Some (i, w))) =
     alone env n (sysOf (resume (dateAt env (Suc i)) (i, w) (settles env (i, w) st) st))"
  by (simp add: sysOf_def split: prod.splits option.splits)

lemma alone_step:
  assumes "resume (dateAt env (Suc i)) (i, w) (settles env (i, w) st) st = r"
  shows "alone env (Suc n) (sysOf (st, Some (i, w))) = alone env n (sysOf r)"
  unfolding assms [symmetric] by (rule alone_single)

lemma iteration_in_steps:
  assumes "i < length (plates st)"
  shows "\<exists>k. 1 \<le> k \<and> k \<le> 3 \<and>
           (\<forall>n. alone env (k + n) (atHead env i st) =
                alone env n (atHead env (Suc i) (processPlate env i st)))"
proof -
  define t where "t = dateAt env (Suc i)"
  define st1 where "st1 = updatePlateStatus (plateId (plates st ! i))
      \<lparr>u_status = Some Checking, u_lastChecked = Some (dateAt env i), u_alertSent = None\<rparr> st"
  define probe where "probe = checkEVGForPlate env i (plateNumber (plates st1 ! i))"
  have head: "atHead env i st = sysOf (st1, Some (i, AwaitProbe))"
    using assms by (simp add: atHead_def nextPlate_def st1_def)
  have next_head: "sysOf (nextPlate t (Suc i) s) = atHead env (Suc i) s" for s
    by (simp add: atHead_def t_def)
  have await_probe: "settles env (i, AwaitProbe) st1 = probe"
    by (simp add: settles_def probe_def)
  have await_delay: "resume (dateAt env (Suc i)) (i, AwaitDelay) (settles env (i, AwaitDelay) s) s =
      nextPlate t (Suc i) s" for s
    by (simp add: t_def)
  show ?thesis
  proof (cases probe)
    case (Inl e)
    have pp: "processPlate env i st = catchBlock i st1"
      using Inl by (simp add: processPlate_def tryBlock_def catchBlock_def Let_def
          st1_def [symmetric] probe_def [symmetric])
    have r1: "resume (dateAt env (Suc i)) (i, AwaitProbe) (settles env (i, AwaitProbe) st1) st1 =
        nextPlate t (Suc i) (processPlate env i st)"
      by (simp add: await_probe Inl pp t_def)
    have "alone env (1 + n) (atHead env i st) =
        alone env n (atHead env (Suc i) (processPlate env i st))" for n
      using alone_step [OF r1, of n] by (simp only: head next_head plus_1_eq_Suc)
    then show ?thesis by (intro exI [of _ 1]) simp
  next
    case (Inr found)
    show ?thesis
    proof (cases "found \<and> \<not> alertSent (plates st1 ! i)")
      case True
      define st2 where "st2 = updatePlateStatus (plateId (plates st1 ! i))
          \<lparr>u_status = Some Found, u_lastChecked = None, u_alertSent = None\<rparr> st1"
      define st3 where "st3 = st2\<lparr>smsLog := smsLog st2 @
          [(i, phoneNumber (plates st2 ! i), plateNumber (plates st2 ! i))]\<rparr>"
      define sms where "sms = sendSMS env i (phoneNumber (plates st2 ! i)) (plateNumber (plates st2 ! i))"
      have r1: "resume (dateAt env (Suc i)) (i, AwaitProbe) (settles env (i, AwaitProbe) st1) st1 =
          (st3, Some (i, AwaitSMS))"
        using True by (simp add: await_probe Inr Let_def st2_def st3_def)
      have await_sms: "settles env (i, AwaitSMS) st3 = sms"
        by (simp add: settles_def sms_def st3_def)
      show ?thesis
      proof (cases sms)
        case (Inl e)
        have pp: "processPlate env i st = catchBlock i st3"
          using \<open>probe = Inr found\<close> True Inl
          by (simp add: processPlate_def tryBlock_def catchBlock_def Let_def
              st1_def [symmetric] probe_def [symmetric] st2_def [symmetric]
              sms_def [symmetric] st3_def [symmetric])
        have r2: "resume (dateAt env (Suc i)) (i, AwaitSMS) (settles env (i, AwaitSMS) st3) st3 =
            nextPlate t (Suc i) (processPlate env i st)"
          by (simp add: await_sms Inl pp t_def)
        have "alone env (2 + n) (atHead env i st) =
            alone env n (atHead env (Suc i) (processPlate env i st))" for n
        proof -
          have "alone env (Suc (Suc n)) (atHead env i st) = alone env (Suc n) (sysOf (st3, Some (i, AwaitSMS)))"
            unfolding head by (rule alone_step [OF r1])
          also have "\<dots> = alone env n (sysOf (nextPlate t (Suc i) (processPlate env i st)))"
            by (rule alone_step [OF r2])
          finally show ?thesis by (simp only: next_head numeral_2_eq_2 add_Suc add_0)
        qed
        then show ?thesis by (intro exI [of _ 2]) simp
      next
        case (Inr ok)
        define st4 where "st4 = updatePlateStatus (plateId (plates st3 ! i))
            \<lparr>u_status = None, u_lastChecked = None, u_alertSent = Some True\<rparr> st3"
        have pp: "processPlate env i st = st4"
          using \<open>probe = Inr found\<close> True Inr
          by (simp add: processPlate_def tryBlock_def Let_def
              st1_def [symmetric] probe_def [symmetric] st2_def [symmetric]
              sms_def [symmetric] st3_def [symmetric] st4_def [symmetric])
        have r2: "resume (dateAt env (Suc i)) (i, AwaitSMS) (settles env (i, AwaitSMS) st3) st3 =
            (st4, Some (i, AwaitDelay))"
          by (simp add: await_sms Inr st4_def)
        have "alone env (3 + n) (atHead env i st) =
            alone env n (atHead env (Suc i) (processPlate env i st))" for n
        proof -
          have "alone env (Suc (Suc (Suc n))) (atHead env i st) =
              alone env (Suc (Suc n)) (sysOf (st3, Some (i, AwaitSMS)))"
            unfolding head by (rule alone_step [OF r1])
          also have "\<dots> = alone env (Suc n) (sysOf (st4, Some (i, AwaitDelay)))"
            by (rule alone_step [OF r2])
          also have "\<dots> = alone env n (sysOf (nextPlate t (Suc i) st4))"
            by (rule alone_step [OF await_delay])
          finally show ?thesis by (simp only: next_head pp numeral_3_eq_3 add_Suc add_0)
        qed
        then show ?thesis by (intro exI [of _ 3]) simp
      qed
    next
      case False
      define st2 where "st2 = (if found \<and> alertSent (plates st1 ! i)
          then updatePlateStatus (plateId (plates st1 ! i))
                 \<lparr>u_status = Some Found, u_lastChecked = None, u_alertSent = None\<rparr> st1
          else updatePlateStatus (plateId (plates st1 ! i))
                 \<lparr>u_status = Some Clear, u_lastChecked = None, u_alertSent = Some False\<rparr> st1)"
      have r1: "resume (dateAt env (Suc i)) (i, AwaitProbe) (settles env (i, AwaitProbe) st1) st1 =
          (st2, Some (i, AwaitDelay))"
        using False by (auto simp: await_probe Inr st2_def)
      have pp: "processPlate env i st = st2"
        using Inr False
        by (auto simp: processPlate_def tryBlock_def Let_def
            st1_def [symmetric] probe_def [symmetric] st2_def)
      have "alone env (2 + n) (atHead env i st) =
          alone env n (atHead env (Suc i) (processPlate env i st))" for n
      proof -
        have "alone env (Suc (Suc n)) (atHead env i st) = alone env (Suc n) (sysOf (st2, Some (i, AwaitDelay)))"
          unfolding head by (rule alone_step [OF r1])
        also have "\<dots> = alone env n (sysOf (nextPlate t (Suc i) st2))"
          by (rule alone_step [OF await_delay])
        finally show ?thesis by (simp only: next_head pp numeral_2_eq_2 add_Suc add_0)
      qed
      then show ?thesis by (intro exI [of _ 2]) simp
    qed
  qed
qed


lemma loop_in_steps:
  "\<exists>n \<le> 3 * (length (plates st) - i).
     alone env n (atHead env i st) = \<lparr>mon = cycleLoop env i st, running = []\<rparr>"
proof (induction env i st rule: cycleLoop.induct)
  case (1 env i st)
  show ?case
  proof (cases "i < length (plates st)")
    case True
    let ?st' = "processPlate env i st"
    from iteration_in_steps [OF True, of env]
    obtain k where k: "k \<le> 3"
      and steps: "\<And>n. alone env (k + n) (atHead env i st) = alone env n (atHead env (Suc i) ?st')"
      by blast
    from "1.IH" [OF True]
    obtain n where n: "n \<le> 3 * (length (plates ?st') - Suc i)"
      and rest: "alone env n (atHead env (Suc i) ?st') = \<lparr>mon = cycleLoop env (Suc i) ?st', running = []\<rparr>"
      by blast
    have loop: "cycleLoop env i st = cycleLoop env (Suc i) ?st'"
      using True by (subst cycleLoop.simps) simp
    have "k + n \<le> 3 * (length (plates st) - i)"
      using k n True by simp
    moreover have "alone env (k + n) (atHead env i st) = \<lparr>mon = cycleLoop env i st, running = []\<rparr>"
      by (simp only: steps rest loop)
    ultimately show ?thesis by blast
  next
    case False
    then have "alone env 0 (atHead env i st) = \<lparr>mon = cycleLoop env i st, running = []\<rparr>"
      by (subst cycleLoop.simps) (simp add: atHead_end)
    then show ?thesis by blast
  qed
qed

text \<open>
  An invocation that runs alone ends after at most three events for each plate, and the
  state it leaves is the one \<open>performMonitoringCycle\<close> returns.
\<close>

lemma lone_invocation_computes_cycle:
  assumes "isActive st" and "plates st \<noteq> []"
  shows "\<exists>n \<le> 3 * length (plates st). \<exists>st'.
           performMonitoringCycle env st = Inr st' \<and>
           alone env n (step (Run (dateAtStart env) (dateAt env 0)) \<lparr>mon = st, running = []\<rparr>) =
             \<lparr>mon = st', running = []\<rparr>"
proof -
  let ?st0 = "st\<lparr>lastCheckTime := Some (dateAtStart env)\<rparr>"
  have start: "step (Run (dateAtStart env) (dateAt env 0)) \<lparr>mon = st, running = []\<rparr> = atHead env 0 ?st0"
    using assms by (simp add: startCycle_def atHead_def sysOf_def split: prod.splits option.splits)
  have run: "performMonitoringCycle env st = Inr (cycleLoop env 0 ?st0)"
    using assms by (simp add: performMonitoringCycle_def)
  from loop_in_steps [of ?st0 0 env] start run show ?thesis
    by auto
qed

text \<open>
  Cycles run by \<open>runCycles\<close> are invocations on the event loop of which each has
  ended when the next tick comes.
\<close>

lemma runCycles_alone:
  assumes "isActive st" and "plates st \<noteq> []"
  shows "\<exists>ns st'. length ns = length es \<and> runCycles es st = Inr st' \<and>
           ticksAlone (zip es ns) \<lparr>mon = st, running = []\<rparr> = \<lparr>mon = st', running = []\<rparr>"
  using assms
proof (induction es arbitrary: st)
  case Nil
  then show ?case by simp
next
  case (Cons e es)
  let ?st1 = "ranCycle e st"
  have run: "performMonitoringCycle e st = Inr ?st1"
    using Cons.prems by (simp add: performMonitoringCycle_ran)
  from lone_invocation_computes_cycle [OF Cons.prems, of e] run
  obtain n where n: "alone e n (step (Run (dateAtStart e) (dateAt e 0)) \<lparr>mon = st, running = []\<rparr>) =
      \<lparr>mon = ?st1, running = []\<rparr>"
    by auto
  have tick: "step (Tick (dateAtStart e) (dateAt e 0)) \<lparr>mon = st, running = []\<rparr> =
      step (Run (dateAtStart e) (dateAt e 0)) \<lparr>mon = st, running = []\<rparr>"
    using Cons.prems(1) by simp
  have "isActive ?st1" and "plates ?st1 \<noteq> []"
    using Cons.prems by simp_all
  from Cons.IH [OF this]
  obtain ns st' where rest: "length ns = length es" "runCycles es ?st1 = Inr st'"
      "ticksAlone (zip es ns) \<lparr>mon = ?st1, running = []\<rparr> = \<lparr>mon = st', running = []\<rparr>"
    by blast
  show ?case
  proof (intro exI conjI)
    show "length (n # ns) = length (e # es)" using rest(1) by simp
    show "runCycles (e # es) st = Inr st'" using run rest(2) by simp
    show "ticksAlone (zip (e # es) (n # ns)) \<lparr>mon = st, running = []\<rparr> = \<lparr>mon = st', running = []\<rparr>"
      using rest(3) by (simp add: tick n del: step.simps)
  qed
qed

section \<open>A throw in an invocation that others overlap\<close>

lemma catchBlock_at:
  assumes "distinct (map plateId (plates st))" and "i < length (plates st)"
  shows "catchBlock i st = st\<lparr>plates := (plates st)[i := (plates st ! i)\<lparr>status := Error\<rparr>]\<rparr>"
  using assms by (simp add: catchBlock_def updatePlateStatus_at objectAssign_def)

lemma nextPlate_at:
  assumes "distinct (map plateId (plates st))"
  shows "nextPlate t i st =
     (if i < length (plates st)
      then (st\<lparr>plates := (plates st)[i := (plates st ! i)\<lparr>status := Checking, lastChecked := Some t\<rparr>]\<rparr>,
            Some (i, AwaitProbe))
      else (st, None))"
  using assms by (simp add: nextPlate_def updatePlateStatus_at objectAssign_def)

text \<open>
  What the \<^verbatim>\<open>catch\<close> block and the head of the next iteration do when a promise that
  a task awaits in its \<^verbatim>\<open>try\<close> block rejects, whatever other tasks are in flight.
\<close>

lemma rejection_step:
  assumes ids: "distinct (map plateId (plates (mon s)))" and k: "k < length (running s)"
    and tk: "running s ! k = (i, a)" and a: "a = AwaitProbe \<or> a = AwaitSMS"
    and i: "i < length (plates (mon s))"
  shows "length (plates (mon (step (Settle k (Inl e) t) s))) = length (plates (mon s))"
    and "status (plates (mon (step (Settle k (Inl e) t) s)) ! i) = Error"
    and "j < length (plates (mon s)) \<Longrightarrow>
      alertSent (plates (mon (step (Settle k (Inl e) t) s)) ! j) = alertSent (plates (mon s) ! j)"
    and "running (step (Settle k (Inl e) t) s) =
      (if Suc i < length (plates (mon s)) then (running s)[k := (Suc i, AwaitProbe)]
       else take k (running s) @ drop (Suc k) (running s))"
proof -
  let ?st = "mon s"
  let ?c = "catchBlock i ?st"
  have c: "?c = ?st\<lparr>plates := (plates ?st)[i := (plates ?st ! i)\<lparr>status := Error\<rparr>]\<rparr>"
    by (rule catchBlock_at [OF ids i])
  have idc: "distinct (map plateId (plates ?c))"
    using ids by (simp add: c map_update)
  have res: "resume t (running s ! k) (Inl e) ?st = nextPlate t (Suc i) ?c"
    using tk a by auto
  have np: "nextPlate t (Suc i) ?c =
     (if Suc i < length (plates ?st)
      then (?c\<lparr>plates := (plates ?c)[Suc i :=
                 (plates ?c ! Suc i)\<lparr>status := Checking, lastChecked := Some t\<rparr>]\<rparr>,
            Some (Suc i, AwaitProbe))
      else (?c, None))"
    using nextPlate_at [OF idc, of t "Suc i"] by (simp add: c)
  have stp: "step (Settle k (Inl e) t) s =
     (if Suc i < length (plates ?st)
      then s\<lparr>mon := ?c\<lparr>plates := (plates ?c)[Suc i :=
                 (plates ?c ! Suc i)\<lparr>status := Checking, lastChecked := Some t\<rparr>]\<rparr>,
             running := (running s)[k := (Suc i, AwaitProbe)]\<rparr>
      else s\<lparr>mon := ?c, running := take k (running s) @ drop (Suc k) (running s)\<rparr>)"
    using k by (simp add: res np)
  show "length (plates (mon (step (Settle k (Inl e) t) s))) = length (plates (mon s))"
    by (simp add: stp c del: step.simps)
  show "status (plates (mon (step (Settle k (Inl e) t) s)) ! i) = Error"
    using i by (simp add: stp c del: step.simps)
  show "alertSent (plates (mon (step (Settle k (Inl e) t) s)) ! j) = alertSent (plates (mon s) ! j)"
    if "j < length (plates (mon s))"
    using i that by (simp add: stp c nth_list_update del: step.simps)
  show "running (step (Settle k (Inl e) t) s) =
      (if Suc i < length (plates (mon s)) then (running s)[k := (Suc i, AwaitProbe)]
       else take k (running s) @ drop (Suc k) (running s))"
    by (simp add: stp del: step.simps)
qed

section \<open>Identifiers stay pairwise different\<close>

text \<open>
  Pairwise different identifiers are what the results on the cycle assume. They are
  kept by the add, delete and update handlers and by the cycle, as long as the
  identifier generated for a new plate is not that of a tracked plate; the add handler
  does not see to that (the plates \<open>twinE1\<close> and \<open>twinE2\<close> of the examples).
\<close>

lemma addPlate_ids:
  assumes "distinct (map plateId (plates st))" and "nid \<notin> plateId ` set (plates st)"
  shows "distinct (map plateId (plates (snd (addPlate nid pn ph st))))"
  using assms by (simp add: addPlate_def newPlate_def Let_def split: option.splits)

lemma removePlate_ids:
  assumes "distinct (map plateId (plates st))"
  shows "distinct (map plateId (plates (snd (removePlate pid st))))"
proof (cases "findIndex (\<lambda>p. plateId p = pid) (plates st)")
  case None
  with assms show ?thesis by (simp add: removePlate_def)
next
  case (Some k)
  let ?xs = "plates st"
  from findIndex_Some_less [OF Some] have "k < length ?xs" by simp
  then have "?xs = take k ?xs @ ?xs ! k # drop (Suc k) ?xs"
    by (rule id_take_nth_drop)
  then have "map plateId ?xs =
      map plateId (take k ?xs) @ plateId (?xs ! k) # map plateId (drop (Suc k) ?xs)"
    by (metis list.simps(9) map_append)
  with assms have "distinct (map plateId (take k ?xs) @ map plateId (drop (Suc k) ?xs))"
    by auto
  with Some show ?thesis by (simp add: removePlate_def)
qed

lemma updatePlate_ids:
  "map plateId (plates (snd (updatePlate pid pn ph st))) = map plateId (plates st)"
proof (cases "findIndex (\<lambda>p. plateId p = pid) (plates st)")
  case None
  then show ?thesis by (simp add: updatePlate_def)
next
  case (Some k)
  then show ?thesis
    by (simp add: updatePlate_def Let_def map_update)
qed

lemma cycle_ids:
  assumes "distinct (map plateId (plates st))" and "performMonitoringCycle env st = Inr st'"
  shows "map plateId (plates st') = map plateId (plates st)"
proof (cases "isActive st \<and> plates st \<noteq> []")
  case True
  with assms(2) have "st' = ranCycle env st"
    by (simp add: performMonitoringCycle_ran)
  with assms(1) show ?thesis by (simp add: ranCycle_ids)
next
  case False
  with assms(2) show ?thesis by (auto simp: performMonitoringCycle_def)
qed

section \<open>Claims\<close>

text \<open>
  C1, as the claim states it, fails. A direct call starts a cycle, which is suspended at
  the probe of the first plate; a tick that arrives then starts a second pass over the
  registry at the same plate. When both probes have reported the fine, \<^verbatim>\<open>sendSMS\<close>
  has been called twice for that plate.
\<close>

theorem overlapping_cycles_counterexample:
  "running (schedule [Run 1000 1001] idle) = [(0, AwaitProbe)] \<and>
   running (schedule [Run 1000 1001, Tick 2000 2001] idle) = [(0, AwaitProbe), (0, AwaitProbe)] \<and>
   running (schedule [Run 1000 1001, Tick 2000 2001, Settle 0 (Inr True) 2002,
       Settle 1 (Inr True) 2003] idle) = [(0, AwaitSMS), (0, AwaitSMS)] \<and>
   smsLog (mon (schedule [Run 1000 1001, Tick 2000 2001, Settle 0 (Inr True) 2002,
       Settle 1 (Inr True) 2003] idle)) =
     [(0, JStr ''+971500000001'', ''E1''), (0, JStr ''+971500000001'', ''E1'')]"
  by (simp add: idle_def example_defs startCycle_def nextPlate_def updatePlateStatus_def
      objectAssign_def)

text \<open>
  C1, amended. There is no guard against re-entry: while the monitor is active and the
  registry is not empty, every invocation, a direct call or a tick, begins a pass of
  its own at the first plate, next to the invocations still in flight, which it leaves
  as they are, and assigns \<^verbatim>\<open>lastCheckTime\<close> again. An invocation begins no pass only
  when the monitor is not active or the registry is empty: then it leaves the state as
  it is.
\<close>

theorem every_invocation_starts_a_pass:
  "(isActive (mon s) \<and> plates (mon s) \<noteq> [] \<longrightarrow>
      running (step (Run t0 t1) s) = running s @ [(0, AwaitProbe)] \<and>
      running (step (Tick t0 t1) s) = running s @ [(0, AwaitProbe)] \<and>
      lastCheckTime (mon (step (Run t0 t1) s)) = Some t0 \<and>
      lastCheckTime (mon (step (Tick t0 t1) s)) = Some t0) \<and>
   (\<not> isActive (mon s) \<or> plates (mon s) = [] \<longrightarrow>
      step (Run t0 t1) s = s \<and> step (Tick t0 t1) s = s)"
  by (auto simp: startCycle_def nextPlate_def)

theorem every_invocation_starts_a_pass_witness:
  "isActive (mon (step (Run 1000 1001) idle)) \<and> plates (mon (step (Run 1000 1001) idle)) \<noteq> [] \<and>
   running (step (Run 1000 1001) idle) = [(0, AwaitProbe)] \<and>
   running (step (Tick 2000 2001) (step (Run 1000 1001) idle)) = [(0, AwaitProbe), (0, AwaitProbe)] \<and>
   lastCheckTime (mon (step (Tick 2000 2001) (step (Run 1000 1001) idle))) = Some 2000 \<and>
   \<not> isActive (mon \<lparr>mon = initialState, running = []\<rparr>) \<and>
   step (Tick 2000 2001) \<lparr>mon = initialState, running = []\<rparr> = \<lparr>mon = initialState, running = []\<rparr>"
proof -
  have first: "running (step (Run 1000 1001) idle) = [(0, AwaitProbe)]"
    "isActive (mon (step (Run 1000 1001) idle))" "plates (mon (step (Run 1000 1001) idle)) \<noteq> []"
    by (simp_all add: idle_def example_defs startCycle_def nextPlate_def updatePlateStatus_def
        objectAssign_def)
  have off: "\<not> isActive (mon \<lparr>mon = initialState, running = []\<rparr>)"
    by (simp add: initialState_def)
  from first off
    every_invocation_starts_a_pass [of "step (Run 1000 1001) idle" 2000 2001]
    every_invocation_starts_a_pass [of "\<lparr>mon = initialState, running = []\<rparr>" 2000 2001]
  show ?thesis by simp
qed




text \<open>
  C3, as the claim states it, fails. After a cycle that alerted both plates, a cycle
  in which the probe throws leaves each plate with \<^verbatim>\<open>alertSent\<close> true and the status
  \<^verbatim>\<open>error\<close>: the \<^verbatim>\<open>catch\<close> block assigns the status only. With two passes that
  overlap, a plate is left with \<^verbatim>\<open>alertSent\<close> true and the status \<^verbatim>\<open>clear\<close> when
  both have ended: the probe of the first pass finds the fine, the probe of the second
  finds none and clears the plate, then the message of the first pass goes out and
  sets \<^verbatim>\<open>alertSent\<close>. And of two plates with the same identifier the first is left
  with \<^verbatim>\<open>alertSent\<close> true and the status \<^verbatim>\<open>error\<close> by a cycle before which its
  \<^verbatim>\<open>alertSent\<close> was false and in which its own probe did not throw: the probe of
  its twin did.
\<close>

theorem alerted_implies_found_counterexample:
  "performMonitoringCycle fineListed twoPlates = Inr bothAlerted \<and>
   runCycles [fineListed, probeDown] twoPlates = Inr afterOutage \<and>
   alertSent (plates afterOutage ! 0) \<and> status (plates afterOutage ! 0) = Error \<and>
   running (schedule [Run 1000 1001, Tick 2000 2001, Settle 0 (Inr True) 2002,
       Settle 1 (Inr False) 2003, Settle 0 (Inr True) 2004,
       Settle 0 (Inr True) 2005, Settle 0 (Inr False) 2006, Settle 0 (Inr True) 2007,
       Settle 0 (Inr True) 2008, Settle 0 (Inr False) 2009, Settle 0 (Inr True) 2010] idle) = [] \<and>
   alertSent (plates (mon (schedule [Run 1000 1001, Tick 2000 2001, Settle 0 (Inr True) 2002,
       Settle 1 (Inr False) 2003, Settle 0 (Inr True) 2004,
       Settle 0 (Inr True) 2005, Settle 0 (Inr False) 2006, Settle 0 (Inr True) 2007,
       Settle 0 (Inr True) 2008, Settle 0 (Inr False) 2009, Settle 0 (Inr True) 2010] idle)) ! 0) \<and>
   status (plates (mon (schedule [Run 1000 1001, Tick 2000 2001, Settle 0 (Inr True) 2002,
       Settle 1 (Inr False) 2003, Settle 0 (Inr True) 2004,
       Settle 0 (Inr True) 2005, Settle 0 (Inr False) 2006, Settle 0 (Inr True) 2007,
       Settle 0 (Inr True) 2008, Settle 0 (Inr False) 2009, Settle 0 (Inr True) 2010] idle)) ! 0) =
     Clear \<and>
   plateId (plates twins ! 0) = plateId (plates twins ! 1) \<and>
   \<not> alertSent (plates twins ! 0) \<and>
   checkEVGForPlate probeDownForE2 0 (plateNumber (plates twins ! 0)) = Inr True \<and>
   performMonitoringCycle probeDownForE2 twins =
     Inr (twins\<lparr>plates := [twinE1\<lparr>lastChecked := Some 6002, status := Error, alertSent := True\<rparr>,
                             twinE2],
                lastCheckTime := Some 6000,
                smsLog := [(0, JStr ''+971500000001'', ''E1'')]\<rparr>)"
  by (simp add: bothAlerted_def afterOutage_def fineListed_def probeDown_def
      probeDownForE2_def twin_defs code_defs loop_defs)

text \<open>
  C3, amended. After every cycle that runs alone on the event loop (between its start
  and its end no other invocation of the cycle and no request is handled), over a
  registry whose identifiers are pairwise different (the monitor is active and the
  registry is not empty, so that the cycle runs), every plate whose \<^verbatim>\<open>alertSent\<close> is
  true has the status \<^verbatim>\<open>found\<close>, or it has the status \<^verbatim>\<open>error\<close>, its
  \<^verbatim>\<open>alertSent\<close> was true before the cycle and its probe threw in this cycle.
\<close>

theorem alerted_implies_found_or_probe_failed:
  assumes "distinct (map plateId (plates st))" and "isActive st" and "plates st \<noteq> []"
  shows "\<exists>st'. performMonitoringCycle env st = Inr st' \<and>
           (\<exists>n. alone env n (step (Run (dateAtStart env) (dateAt env 0))
                   \<lparr>mon = st, running = []\<rparr>) = \<lparr>mon = st', running = []\<rparr>) \<and>
           length (plates st') = length (plates st) \<and>
           (\<forall>j < length (plates st').
              alertSent (plates st' ! j) \<longrightarrow>
                status (plates st' ! j) = Found \<or>
                (status (plates st' ! j) = Error \<and> alertSent (plates st ! j) \<and>
                 (\<exists>e. checkEVGForPlate env j (plateNumber (plates st ! j)) = Inl e)))"
proof (rule exI [of _ "ranCycle env st"], intro conjI allI impI)
  show run: "performMonitoringCycle env st = Inr (ranCycle env st)"
    using assms(2,3) by (simp add: performMonitoringCycle_ran)
  from lone_invocation_computes_cycle [OF assms(2,3), of env] run
  show "\<exists>n. alone env n (step (Run (dateAtStart env) (dateAt env 0))
      \<lparr>mon = st, running = []\<rparr>) = \<lparr>mon = ranCycle env st, running = []\<rparr>"
    by auto
  show "length (plates (ranCycle env st)) = length (plates st)"
    by simp
  fix j
  assume j: "j < length (plates (ranCycle env st))" and sent: "alertSent (plates (ranCycle env st) ! j)"
  from j have j': "j < length (plates st)" by simp
  from sent show "status (plates (ranCycle env st) ! j) = Found \<or>
      (status (plates (ranCycle env st) ! j) = Error \<and> alertSent (plates st ! j) \<and>
       (\<exists>e. checkEVGForPlate env j (plateNumber (plates st ! j)) = Inl e))"
    unfolding ranCycle_plates [OF assms(1) j']
    by (auto simp: afterIteration_def split: sum.splits if_splits)
qed

theorem alerted_implies_found_or_probe_failed_witness:
  "distinct (map plateId (plates bothAlerted)) \<and> isActive bothAlerted \<and> plates bothAlerted \<noteq> [] \<and>
   performMonitoringCycle probeDown bothAlerted = Inr afterOutage \<and>
   (\<exists>n. alone probeDown n (step (Run 5000 5001) \<lparr>mon = bothAlerted, running = []\<rparr>) =
          \<lparr>mon = afterOutage, running = []\<rparr>) \<and>
   alertSent (plates afterOutage ! 0) \<and>
   (status (plates afterOutage ! 0) = Found \<or>
    status (plates afterOutage ! 0) = Error \<and> alertSent (plates bothAlerted ! 0) \<and>
    (\<exists>e. checkEVGForPlate probeDown 0 (plateNumber (plates bothAlerted ! 0)) = Inl e))"
proof -
  have h: "distinct (map plateId (plates bothAlerted))" "isActive bothAlerted"
    "plates bothAlerted \<noteq> []"
    by (simp_all add: bothAlerted_def example_defs)
  have run: "performMonitoringCycle probeDown bothAlerted = Inr afterOutage"
    by (simp add: bothAlerted_def afterOutage_def example_defs probeDown_def code_defs)
  have t: "dateAtStart probeDown = 5000" "dateAt probeDown 0 = 5001"
    by (simp_all add: probeDown_def)
  have sent: "alertSent (plates afterOutage ! 0)" and len: "0 < length (plates afterOutage)"
    by (simp_all add: afterOutage_def)
  from alerted_implies_found_or_probe_failed [OF h, of probeDown] run
  have lone: "\<exists>n. alone probeDown n (step (Run (dateAtStart probeDown) (dateAt probeDown 0))
        \<lparr>mon = bothAlerted, running = []\<rparr>) = \<lparr>mon = afterOutage, running = []\<rparr>"
    and inv: "\<forall>j < length (plates afterOutage).
      alertSent (plates afterOutage ! j) \<longrightarrow>
        status (plates afterOutage ! j) = Found \<or>
        (status (plates afterOutage ! j) = Error \<and> alertSent (plates bothAlerted ! j) \<and>
         (\<exists>e. checkEVGForPlate probeDown j (plateNumber (plates bothAlerted ! j)) = Inl e))"
    by simp_all
  from inv len sent have "status (plates afterOutage ! 0) = Found \<or>
      status (plates afterOutage ! 0) = Error \<and> alertSent (plates bothAlerted ! 0) \<and>
      (\<exists>e. checkEVGForPlate probeDown 0 (plateNumber (plates bothAlerted ! 0)) = Inl e)"
    by blast
  moreover from lone have "\<exists>n. alone probeDown n (step (Run 5000 5001)
      \<lparr>mon = bothAlerted, running = []\<rparr>) = \<lparr>mon = afterOutage, running = []\<rparr>"
    unfolding t .
  ultimately show ?thesis using h run sent by blast
qed

text \<open>
  C4. The claim holds of the add, bulk and delete handlers (the three lemmas above) and
  fails on the update handler, which assigns the new plate number without looking for
  a plate that has it: after two plates A1 and B2 have been added, updating the second
  with the number a1 succeeds and leaves two plates with the number A1.
\<close>

theorem update_breaks_unique_numbers:
  "addPlate ''1700000000001'' (Some ''A1'') (Some ''+971500000001'') initialState =
     (Inr plateA1, initialState\<lparr>plates := [plateA1]\<rparr>) \<and>
   addPlate ''1700000000002'' (Some ''B2'') (Some ''+971500000002'')
       (initialState\<lparr>plates := [plateA1]\<rparr>) =
     (Inr plateB2, initialState\<lparr>plates := [plateA1, plateB2]\<rparr>) \<and>
   uniqueNumbers (initialState\<lparr>plates := [plateA1, plateB2]\<rparr>) \<and>
   updatePlate ''1700000000002'' (Some ''a1'') None (initialState\<lparr>plates := [plateA1, plateB2]\<rparr>) =
     (Inr (plateB2\<lparr>plateNumber := ''A1''\<rparr>),
      initialState\<lparr>plates := [plateA1, plateB2\<lparr>plateNumber := ''A1''\<rparr>]\<rparr>) \<and>
   \<not> uniqueNumbers (initialState\<lparr>plates := [plateA1, plateB2\<lparr>plateNumber := ''A1''\<rparr>]\<rparr>)"
  by (simp add: addPlate_def updatePlate_def uniqueNumbers_def truthy_def newPlate_def
      initialState_def plateA1_def plateB2_def upper_literals Let_def)

theorem update_breaks_unique_numbers_witness:
  "\<not> uniqueNumbers
       (snd (updatePlate ''1700000000002'' (Some ''a1'') None
               (snd (addPlate ''1700000000002'' (Some ''B2'') (Some ''+971500000002'')
                       (snd (addPlate ''1700000000001'' (Some ''A1'') (Some ''+971500000001'')
                               initialState))))))"
  using update_breaks_unique_numbers by simp

text \<open>
  C5, as the claim states it, fails. When a tick starts a second pass while the first
  awaits its probe, both passes find the fine with \<^verbatim>\<open>alertSent\<close> false and each
  calls \<^verbatim>\<open>sendSMS\<close>: one transition of the plate, two calls. And of two plates with
  the same identifier, as two requests handled in the same millisecond create them,
  the second never gets \<^verbatim>\<open>alertSent\<close> true, the updates reaching the first: a
  cycle in which the page still lists its fine calls \<^verbatim>\<open>sendSMS\<close> for it again.
\<close>

theorem one_alert_per_episode_counterexample:
  "callsFor 0 (mon idle) = 0 \<and> \<not> alertSent (plates (mon idle) ! 0) \<and>
   running (schedule [Run 1000 1001, Tick 2000 2001, Settle 0 (Inr True) 2002,
       Settle 1 (Inr True) 2003, Settle 0 (Inr True) 2004, Settle 1 (Inr True) 2005] idle) =
     [(0, AwaitDelay), (0, AwaitDelay)] \<and>
   callsFor 0 (mon (schedule [Run 1000 1001, Tick 2000 2001, Settle 0 (Inr True) 2002,
       Settle 1 (Inr True) 2003, Settle 0 (Inr True) 2004, Settle 1 (Inr True) 2005] idle)) = 2 \<and>
   plateId (plates twins ! 0) = plateId (plates twins ! 1) \<and>
   callsFor 1 twins = 0 \<and>
   checkEVGForPlate fineListed 1 (plateNumber (plates twins ! 1)) = Inr True \<and>
   performMonitoringCycle fineListed twins = Inr twinsAlerted \<and>
   callsFor 1 twinsAlerted = 1 \<and>
   performMonitoringCycle fineListed twinsAlerted =
     Inr (twinsAlerted\<lparr>smsLog := smsLog twinsAlerted @ [(1, JStr ''+971500000002'', ''E2'')]\<rparr>) \<and>
   callsFor 1 (twinsAlerted\<lparr>smsLog := smsLog twinsAlerted @ [(1, JStr ''+971500000002'', ''E2'')]\<rparr>) = 2"
  by (simp add: twinsAlerted_def twin_defs fineListed_def code_defs loop_defs callsFor_def)

text \<open>
  C5, amended. For cycles that run one after the other, each alone on the event loop
  (between its start and its end no other invocation of the cycle and no request is
  handled), over a registry whose identifiers are pairwise different, the monitor
  being active: a plate with \<^verbatim>\<open>alertSent\<close> false for which the page lists a fine
  causes exactly one call to \<^verbatim>\<open>sendSMS\<close> in that cycle and, the call having
  succeeded, is \<^verbatim>\<open>found\<close> with \<^verbatim>\<open>alertSent\<close> true; any number of later cycles in
  which the page still lists the fine cause no further call; and a cycle in which the
  fine is gone followed by one in which it is listed again brings the calls for that
  plate to exactly two. (\<open>runCycles_alone\<close> above: the states \<open>runCycles\<close> returns
  are those of the event loop when each invocation has ended before the next tick.)
\<close>

theorem one_alert_per_episode:
  assumes "distinct (map plateId (plates st))" and "isActive st" and "i < length (plates st)"
    and "\<not> alertSent (plates st ! i)"
    and "checkEVGForPlate e1 i (plateNumber (plates st ! i)) = Inr True"
    and "sendSMS e1 i (phoneNumber (plates st ! i)) (plateNumber (plates st ! i)) = Inr ok"
  shows "\<exists>st1. performMonitoringCycle e1 st = Inr st1 \<and>
           (\<exists>n. alone e1 n (step (Run (dateAtStart e1) (dateAt e1 0))
                   \<lparr>mon = st, running = []\<rparr>) = \<lparr>mon = st1, running = []\<rparr>) \<and>
           callsFor i st1 = callsFor i st + 1 \<and>
           status (plates st1 ! i) = Found \<and> alertSent (plates st1 ! i) \<and>
           (\<forall>es. (\<forall>e \<in> set es. checkEVGForPlate e i (plateNumber (plates st ! i)) = Inr True) \<longrightarrow>
                 (\<exists>st2. runCycles es st1 = Inr st2 \<and> callsFor i st2 = callsFor i st1)) \<and>
           (\<forall>e2 e3. checkEVGForPlate e2 i (plateNumber (plates st ! i)) = Inr False \<and>
                    checkEVGForPlate e3 i (plateNumber (plates st ! i)) = Inr True \<longrightarrow>
                 (\<exists>st3. runCycles [e2, e3] st1 = Inr st3 \<and> callsFor i st3 = callsFor i st + 2))"
proof -
  let ?p = "plates st ! i"
  let ?st1 = "ranCycle e1 st"
  from assms(3) have ne: "plates st \<noteq> []" by auto
  have run1: "performMonitoringCycle e1 st = Inr ?st1"
    using assms(2) ne by (simp add: performMonitoringCycle_ran)
  have p1: "plates ?st1 ! i = ?p\<lparr>lastChecked := Some (dateAt e1 i), status := Found, alertSent := True\<rparr>"
    using assms(4,5,6) by (simp add: ranCycle_plates [OF assms(1,3)] afterIteration_def)
  have calls1: "callsFor i ?st1 = callsFor i st + 1"
    using assms(4,5) by (simp add: ranCycle_calls [OF assms(1,3)] callsMade_def)
  have ids1: "distinct (map plateId (plates ?st1))" using assms(1) by simp
  have act1: "isActive ?st1" using assms(2) by simp
  have i1: "i < length (plates ?st1)" using assms(3) by simp
  have stay: "\<exists>st2. runCycles es ?st1 = Inr st2 \<and> callsFor i st2 = callsFor i ?st1"
    if "\<forall>e \<in> set es. checkEVGForPlate e i (plateNumber ?p) = Inr True" for es
  proof (rule still_listed_no_calls [OF ids1 act1 i1])
    show "alertSent (plates ?st1 ! i)" by (simp add: p1)
    show "\<forall>e \<in> set es. checkEVGForPlate e i (plateNumber (plates ?st1 ! i)) = Inr True"
      using that by (simp add: p1)
  qed
  have again: "\<exists>st3. runCycles [e2, e3] ?st1 = Inr st3 \<and> callsFor i st3 = callsFor i st + 2"
    if gone: "checkEVGForPlate e2 i (plateNumber ?p) = Inr False"
      and relisted: "checkEVGForPlate e3 i (plateNumber ?p) = Inr True" for e2 e3
  proof -
    let ?st2 = "ranCycle e2 ?st1"
    let ?st3 = "ranCycle e3 ?st2"
    have run2: "performMonitoringCycle e2 ?st1 = Inr ?st2"
      using act1 ne by (simp add: performMonitoringCycle_ran)
    have p2: "plates ?st2 ! i =
        ?p\<lparr>lastChecked := Some (dateAt e2 i), status := Clear, alertSent := False\<rparr>"
      using gone by (simp add: ranCycle_plates [OF ids1 i1] p1 afterIteration_def)
    have calls2: "callsFor i ?st2 = callsFor i ?st1"
      using gone by (simp add: ranCycle_calls [OF ids1 i1] p1 callsMade_def)
    have ids2: "distinct (map plateId (plates ?st2))" using ids1 by simp
    have i2: "i < length (plates ?st2)" using i1 by simp
    have run3: "performMonitoringCycle e3 ?st2 = Inr ?st3"
      using act1 ne by (simp add: performMonitoringCycle_ran)
    have calls3: "callsFor i ?st3 = callsFor i ?st2 + 1"
      using relisted by (simp add: ranCycle_calls [OF ids2 i2] p2 callsMade_def)
    from run2 run3 calls1 calls2 calls3 show ?thesis by simp
  qed
  from lone_invocation_computes_cycle [OF assms(2) ne, of e1] run1
  have lone1: "\<exists>n. alone e1 n (step (Run (dateAtStart e1) (dateAt e1 0))
      \<lparr>mon = st, running = []\<rparr>) = \<lparr>mon = ?st1, running = []\<rparr>"
    by auto
  show ?thesis
  proof (rule exI [of _ ?st1], intro conjI)
    show "performMonitoringCycle e1 st = Inr ?st1" by (rule run1)
    show "\<exists>n. alone e1 n (step (Run (dateAtStart e1) (dateAt e1 0))
        \<lparr>mon = st, running = []\<rparr>) = \<lparr>mon = ?st1, running = []\<rparr>"
      by (rule lone1)
    show "callsFor i ?st1 = callsFor i st + 1" by (rule calls1)
    show "status (plates ?st1 ! i) = Found" by (simp add: p1)
    show "alertSent (plates ?st1 ! i)" by (simp add: p1)
    show "\<forall>es. (\<forall>e \<in> set es. checkEVGForPlate e i (plateNumber ?p) = Inr True) \<longrightarrow>
        (\<exists>st2. runCycles es ?st1 = Inr st2 \<and> callsFor i st2 = callsFor i ?st1)"
      using stay by blast
    show "\<forall>e2 e3. checkEVGForPlate e2 i (plateNumber ?p) = Inr False \<and>
        checkEVGForPlate e3 i (plateNumber ?p) = Inr True \<longrightarrow>
        (\<exists>st3. runCycles [e2, e3] ?st1 = Inr st3 \<and> callsFor i st3 = callsFor i st + 2)"
      using again by blast
  qed
qed

theorem one_alert_per_episode_witness:
  "distinct (map plateId (plates twoPlates)) \<and> isActive twoPlates \<and>
   \<not> alertSent (plates twoPlates ! 0) \<and>
   checkEVGForPlate fineListed 0 (plateNumber (plates twoPlates ! 0)) = Inr True \<and>
   sendSMS fineListed 0 (phoneNumber (plates twoPlates ! 0)) (plateNumber (plates twoPlates ! 0)) =
     Inr True \<and>
   (\<exists>st1. performMonitoringCycle fineListed twoPlates = Inr st1 \<and>
      (\<exists>n. alone fineListed n (step (Run 3000 3001) \<lparr>mon = twoPlates, running = []\<rparr>) =
             \<lparr>mon = st1, running = []\<rparr>) \<and>
      callsFor 0 st1 = 1 \<and> status (plates st1 ! 0) = Found \<and> alertSent (plates st1 ! 0) \<and>
      (\<exists>st2. runCycles [fineListed, fineListed] st1 = Inr st2 \<and> callsFor 0 st2 = 1) \<and>
      (\<exists>st3. runCycles [noFine, fineListed] st1 = Inr st3 \<and> callsFor 0 st3 = 2))"
proof -
  have h: "distinct (map plateId (plates twoPlates))" "isActive twoPlates"
    "0 < length (plates twoPlates)" "\<not> alertSent (plates twoPlates ! 0)"
    "checkEVGForPlate fineListed 0 (plateNumber (plates twoPlates ! 0)) = Inr True"
    "sendSMS fineListed 0 (phoneNumber (plates twoPlates ! 0)) (plateNumber (plates twoPlates ! 0)) =
       Inr True"
    by (simp_all add: example_defs fineListed_def)
  have none: "callsFor 0 twoPlates = 0"
    by (simp add: callsFor_def example_defs)
  have listed: "\<forall>e \<in> set [fineListed, fineListed].
      checkEVGForPlate e 0 (plateNumber (plates twoPlates ! 0)) = Inr True"
    by (simp add: fineListed_def)
  have gone: "checkEVGForPlate noFine 0 (plateNumber (plates twoPlates ! 0)) = Inr False \<and>
      checkEVGForPlate fineListed 0 (plateNumber (plates twoPlates ! 0)) = Inr True"
    by (simp add: noFine_def fineListed_def)
  from one_alert_per_episode [OF h]
  obtain st1 where run: "performMonitoringCycle fineListed twoPlates = Inr st1"
    and lone: "\<exists>n. alone fineListed n (step (Run (dateAtStart fineListed) (dateAt fineListed 0))
        \<lparr>mon = twoPlates, running = []\<rparr>) = \<lparr>mon = st1, running = []\<rparr>"
    and calls: "callsFor 0 st1 = callsFor 0 twoPlates + 1"
    and found: "status (plates st1 ! 0) = Found" "alertSent (plates st1 ! 0)"
    and stay: "\<forall>es. (\<forall>e \<in> set es. checkEVGForPlate e 0 (plateNumber (plates twoPlates ! 0)) = Inr True) \<longrightarrow>
                 (\<exists>st2. runCycles es st1 = Inr st2 \<and> callsFor 0 st2 = callsFor 0 st1)"
    and again: "\<forall>e2 e3. checkEVGForPlate e2 0 (plateNumber (plates twoPlates ! 0)) = Inr False \<and>
                    checkEVGForPlate e3 0 (plateNumber (plates twoPlates ! 0)) = Inr True \<longrightarrow>
                 (\<exists>st3. runCycles [e2, e3] st1 = Inr st3 \<and> callsFor 0 st3 = callsFor 0 twoPlates + 2)"
    by blast
  from stay listed have two: "\<exists>st2. runCycles [fineListed, fineListed] st1 = Inr st2 \<and>
      callsFor 0 st2 = callsFor 0 st1"
    by blast
  from again gone have three: "\<exists>st3. runCycles [noFine, fineListed] st1 = Inr st3 \<and>
      callsFor 0 st3 = callsFor 0 twoPlates + 2"
    by blast
  from calls none have c1: "callsFor 0 st1 = 1"
    by simp
  from two c1 have c2: "\<exists>st2. runCycles [fineListed, fineListed] st1 = Inr st2 \<and> callsFor 0 st2 = 1"
    by (simp del: runCycles.simps)
  from three none have c3: "\<exists>st3. runCycles [noFine, fineListed] st1 = Inr st3 \<and> callsFor 0 st3 = 2"
    by (simp del: runCycles.simps add: numeral_2_eq_2)
  have t: "dateAtStart fineListed = 3000" "dateAt fineListed 0 = 3001"
    by (simp_all add: fineListed_def)
  from lone have lone': "\<exists>n. alone fineListed n (step (Run 3000 3001)
      \<lparr>mon = twoPlates, running = []\<rparr>) = \<lparr>mon = st1, running = []\<rparr>"
    unfolding t .
  from h(1,2,4,5,6) run lone' c1 found c2 c3 show ?thesis
    by blast
qed

text \<open>
  C6. Where the identifiers of the plates are pairwise different, as the data model has
  them, the claim holds. When the probe of a plate throws, whatever other invocations
  of the cycle are in flight, the \<^verbatim>\<open>catch\<close> block gives that plate the status
  \<^verbatim>\<open>error\<close> and leaves the \<^verbatim>\<open>alertSent\<close> of every plate as it is, and the
  invocation goes on with the next plate, or ends when there is none: the exception
  does not leave it. A cycle that runs alone on the event loop (between its start and
  its end no other invocation of the cycle and no request is handled) resolves (the
  promise is not rejected); in the state it leaves, the plate whose probe threw has
  the status \<^verbatim>\<open>error\<close> and the \<^verbatim>\<open>alertSent\<close> it had, and every plate of the
  registry, also those after it, has been visited: its \<^verbatim>\<open>lastChecked\<close> is the time
  of its own iteration and its status is \<^verbatim>\<open>clear\<close>, \<^verbatim>\<open>found\<close> or \<^verbatim>\<open>error\<close>.
\<close>

theorem probe_failure_marks_error_and_goes_on:
  "(distinct (map plateId (plates (mon s))) \<and> k < length (running s) \<and>
    running s ! k = (i, AwaitProbe) \<and> i < length (plates (mon s)) \<longrightarrow>
      status (plates (mon (step (Settle k (Inl e) t) s)) ! i) = Error \<and>
      length (plates (mon (step (Settle k (Inl e) t) s))) = length (plates (mon s)) \<and>
      (\<forall>j < length (plates (mon s)).
         alertSent (plates (mon (step (Settle k (Inl e) t) s)) ! j) =
           alertSent (plates (mon s) ! j)) \<and>
      running (step (Settle k (Inl e) t) s) =
        (if Suc i < length (plates (mon s)) then (running s)[k := (Suc i, AwaitProbe)]
         else take k (running s) @ drop (Suc k) (running s))) \<and>
   (distinct (map plateId (plates st)) \<and> isActive st \<and> i < length (plates st) \<and>
    checkEVGForPlate env i (plateNumber (plates st ! i)) = Inl e \<longrightarrow>
      (\<exists>st'. performMonitoringCycle env st = Inr st' \<and>
         (\<exists>n. alone env n (step (Run (dateAtStart env) (dateAt env 0)) \<lparr>mon = st, running = []\<rparr>) =
                \<lparr>mon = st', running = []\<rparr>) \<and>
         length (plates st') = length (plates st) \<and>
         status (plates st' ! i) = Error \<and>
         alertSent (plates st' ! i) = alertSent (plates st ! i) \<and>
         (\<forall>j < length (plates st).
            lastChecked (plates st' ! j) = Some (dateAt env j) \<and>
            status (plates st' ! j) \<in> {Clear, Found, Error})))"
proof (intro conjI impI)
  assume h: "distinct (map plateId (plates (mon s))) \<and> k < length (running s) \<and>
    running s ! k = (i, AwaitProbe) \<and> i < length (plates (mon s))"
  then have ids: "distinct (map plateId (plates (mon s)))" and k: "k < length (running s)"
    and tk: "running s ! k = (i, AwaitProbe)" and i: "i < length (plates (mon s))"
    by simp_all
  note r = rejection_step [OF ids k tk _ i, where e = e and t = t]
  show "status (plates (mon (step (Settle k (Inl e) t) s)) ! i) = Error"
    by (rule r(2)) simp
  show "length (plates (mon (step (Settle k (Inl e) t) s))) = length (plates (mon s))"
    by (rule r(1)) simp
  show "\<forall>j < length (plates (mon s)).
      alertSent (plates (mon (step (Settle k (Inl e) t) s)) ! j) = alertSent (plates (mon s) ! j)"
    using r(3) by blast
  show "running (step (Settle k (Inl e) t) s) =
      (if Suc i < length (plates (mon s)) then (running s)[k := (Suc i, AwaitProbe)]
       else take k (running s) @ drop (Suc k) (running s))"
    by (rule r(4)) simp
next
  assume h: "distinct (map plateId (plates st)) \<and> isActive st \<and> i < length (plates st) \<and>
    checkEVGForPlate env i (plateNumber (plates st ! i)) = Inl e"
  then have ids: "distinct (map plateId (plates st))" and act: "isActive st"
    and i: "i < length (plates st)"
    and down: "checkEVGForPlate env i (plateNumber (plates st ! i)) = Inl e"
    by simp_all
  from i have ne: "plates st \<noteq> []" by auto
  have run: "performMonitoringCycle env st = Inr (ranCycle env st)"
    using act ne by (simp add: performMonitoringCycle_ran)
  from lone_invocation_computes_cycle [OF act ne, of env] run
  have lone: "\<exists>n. alone env n (step (Run (dateAtStart env) (dateAt env 0)) \<lparr>mon = st, running = []\<rparr>) =
      \<lparr>mon = ranCycle env st, running = []\<rparr>"
    by auto
  show "\<exists>st'. performMonitoringCycle env st = Inr st' \<and>
         (\<exists>n. alone env n (step (Run (dateAtStart env) (dateAt env 0)) \<lparr>mon = st, running = []\<rparr>) =
                \<lparr>mon = st', running = []\<rparr>) \<and>
         length (plates st') = length (plates st) \<and>
         status (plates st' ! i) = Error \<and>
         alertSent (plates st' ! i) = alertSent (plates st ! i) \<and>
         (\<forall>j < length (plates st).
            lastChecked (plates st' ! j) = Some (dateAt env j) \<and>
            status (plates st' ! j) \<in> {Clear, Found, Error})"
  proof (rule exI [of _ "ranCycle env st"], intro conjI allI impI)
    show "performMonitoringCycle env st = Inr (ranCycle env st)" by (rule run)
    show "\<exists>n. alone env n (step (Run (dateAtStart env) (dateAt env 0)) \<lparr>mon = st, running = []\<rparr>) =
        \<lparr>mon = ranCycle env st, running = []\<rparr>"
      by (rule lone)
    show "length (plates (ranCycle env st)) = length (plates st)"
      by simp
    show "status (plates (ranCycle env st) ! i) = Error"
      using down by (simp add: ranCycle_plates [OF ids i] afterIteration_def)
    show "alertSent (plates (ranCycle env st) ! i) = alertSent (plates st ! i)"
      using down by (simp add: ranCycle_plates [OF ids i] afterIteration_def)
    fix j
    assume j: "j < length (plates st)"
    show "lastChecked (plates (ranCycle env st) ! j) = Some (dateAt env j)"
      by (simp add: ranCycle_plates [OF ids j] afterIteration_def split: sum.splits)
    show "status (plates (ranCycle env st) ! j) \<in> {Clear, Found, Error}"
      by (simp add: ranCycle_plates [OF ids j] afterIteration_def split: sum.splits)
  qed
qed


theorem probe_failure_marks_error_and_goes_on_witness:
  "distinct (map plateId (plates (mon (step (Run 1000 1001) idle)))) \<and>
   running (step (Run 1000 1001) idle) ! 0 = (0, AwaitProbe) \<and>
   status (plates (mon (step (Settle 0 (Inl ''Navigation timeout'') 1002)
     (step (Run 1000 1001) idle))) ! 0) = Error \<and>
   alertSent (plates (mon (step (Settle 0 (Inl ''Navigation timeout'') 1002)
     (step (Run 1000 1001) idle))) ! 0) = alertSent (plates (mon (step (Run 1000 1001) idle)) ! 0) \<and>
   running (step (Settle 0 (Inl ''Navigation timeout'') 1002) (step (Run 1000 1001) idle)) =
     [(1, AwaitProbe)] \<and>
   distinct (map plateId (plates twoPlates)) \<and> isActive twoPlates \<and>
   checkEVGForPlate probeDownForE1 0 (plateNumber (plates twoPlates ! 0)) = Inl ''Navigation timeout'' \<and>
   (\<exists>st'. performMonitoringCycle probeDownForE1 twoPlates = Inr st' \<and>
      (\<exists>n. alone probeDownForE1 n (step (Run 1000 1001) \<lparr>mon = twoPlates, running = []\<rparr>) =
             \<lparr>mon = st', running = []\<rparr>) \<and>
      length (plates st') = 2 \<and>
      status (plates st' ! 0) = Error \<and> alertSent (plates st' ! 0) = False \<and>
      lastChecked (plates st' ! 1) = Some 1002) \<and>
   performMonitoringCycle probeDownForE1 twoPlates =
     Inr \<lparr>isActive = True, checkInterval = 15,
          plates = [plateE1\<lparr>lastChecked := Some 1001, status := Error\<rparr>,
                    plateE2\<lparr>lastChecked := Some 1002, status := Found, alertSent := True\<rparr>],
          lastCheckTime = Some 1000, smsLog = [(1, JStr ''+971500000002'', ''E2'')]\<rparr>"
proof -
  let ?s0 = "step (Run 1000 1001) idle"
  have s0: "distinct (map plateId (plates (mon ?s0)))" "0 < length (running ?s0)"
    "running ?s0 ! 0 = (0, AwaitProbe)" "0 < length (plates (mon ?s0))"
    "length (plates (mon ?s0)) = 2" "running ?s0 = [(0, AwaitProbe)]"
    by (simp_all add: loop_defs)
  from probe_failure_marks_error_and_goes_on [where s = ?s0 and k = 0 and i = 0
      and e = "''Navigation timeout''" and t = 1002, THEN conjunct1] s0(1,2,3,4)
  have stp: "status (plates (mon (step (Settle 0 (Inl ''Navigation timeout'') 1002) ?s0)) ! 0) = Error \<and>
      length (plates (mon (step (Settle 0 (Inl ''Navigation timeout'') 1002) ?s0))) =
        length (plates (mon ?s0)) \<and>
      (\<forall>j < length (plates (mon ?s0)).
         alertSent (plates (mon (step (Settle 0 (Inl ''Navigation timeout'') 1002) ?s0)) ! j) =
           alertSent (plates (mon ?s0) ! j)) \<and>
      running (step (Settle 0 (Inl ''Navigation timeout'') 1002) ?s0) =
        (if Suc 0 < length (plates (mon ?s0)) then (running ?s0)[0 := (Suc 0, AwaitProbe)]
         else take 0 (running ?s0) @ drop (Suc 0) (running ?s0))"
    by blast
  then have a1: "status (plates (mon (step (Settle 0 (Inl ''Navigation timeout'') 1002) ?s0)) ! 0) = Error"
    by blast
  from stp s0(4) have a2: "alertSent (plates (mon (step (Settle 0 (Inl ''Navigation timeout'') 1002) ?s0)) ! 0) =
      alertSent (plates (mon ?s0) ! 0)"
    by blast
  from stp have "running (step (Settle 0 (Inl ''Navigation timeout'') 1002) ?s0) =
        (if Suc 0 < length (plates (mon ?s0)) then (running ?s0)[0 := (Suc 0, AwaitProbe)]
         else take 0 (running ?s0) @ drop (Suc 0) (running ?s0))"
    by blast
  then have a3: "running (step (Settle 0 (Inl ''Navigation timeout'') 1002) ?s0) = [(1, AwaitProbe)]"
    unfolding s0(5,6) by simp
  have h: "distinct (map plateId (plates twoPlates))" "isActive twoPlates"
    "0 < length (plates twoPlates)"
    "checkEVGForPlate probeDownForE1 0 (plateNumber (plates twoPlates ! 0)) = Inl ''Navigation timeout''"
    by (simp_all add: example_defs probeDownForE1_def)
  have v: "length (plates twoPlates) = 2" "alertSent (plates twoPlates ! 0) = False"
    "dateAt probeDownForE1 1 = 1002" "dateAtStart probeDownForE1 = 1000"
    "dateAt probeDownForE1 0 = 1001"
    by (simp_all add: example_defs probeDownForE1_def)
  have run: "performMonitoringCycle probeDownForE1 twoPlates =
     Inr \<lparr>isActive = True, checkInterval = 15,
          plates = [plateE1\<lparr>lastChecked := Some 1001, status := Error\<rparr>,
                    plateE2\<lparr>lastChecked := Some 1002, status := Found, alertSent := True\<rparr>],
          lastCheckTime = Some 1000, smsLog = [(1, JStr ''+971500000002'', ''E2'')]\<rparr>"
    by (simp add: example_defs probeDownForE1_def code_defs)
  from probe_failure_marks_error_and_goes_on [where st = twoPlates and i = 0
      and env = probeDownForE1 and e = "''Navigation timeout''", THEN conjunct2] h
  obtain st' where "performMonitoringCycle probeDownForE1 twoPlates = Inr st'"
    and "\<exists>n. alone probeDownForE1 n (step (Run (dateAtStart probeDownForE1) (dateAt probeDownForE1 0))
           \<lparr>mon = twoPlates, running = []\<rparr>) = \<lparr>mon = st', running = []\<rparr>"
    and "length (plates st') = length (plates twoPlates)"
    and "status (plates st' ! 0) = Error"
    and "alertSent (plates st' ! 0) = alertSent (plates twoPlates ! 0)"
    and "\<forall>j < length (plates twoPlates). lastChecked (plates st' ! j) = Some (dateAt probeDownForE1 j) \<and>
              status (plates st' ! j) \<in> {Clear, Found, Error}"
    by blast
  then have b: "\<exists>st'. performMonitoringCycle probeDownForE1 twoPlates = Inr st' \<and>
      (\<exists>n. alone probeDownForE1 n (step (Run 1000 1001) \<lparr>mon = twoPlates, running = []\<rparr>) =
             \<lparr>mon = st', running = []\<rparr>) \<and>
      length (plates st') = 2 \<and>
      status (plates st' ! 0) = Error \<and> alertSent (plates st' ! 0) = False \<and>
      lastChecked (plates st' ! 1) = Some 1002"
    using v by auto
  from s0(1,3) a1 a2 a3 h(1,2,4) b run show ?thesis by blast
qed

text \<open>
  C6 on the code: the add handler takes the identifier of a new plate from the clock
  alone (\<^verbatim>\<open>Date.now().toString()\<close>; the bulk handler appends \<^verbatim>\<open>Math.random()\<close>), so
  that two plates added in the same millisecond have the same identifier, and
  \<^verbatim>\<open>updatePlateStatus\<close> finds the first of them. When the probe of the second
  throws, it is the first plate that gets the status \<^verbatim>\<open>error\<close>: the plate whose
  probe failed keeps the status \<^verbatim>\<open>pending\<close> and is not marked as checked.
\<close>

theorem probe_failure_twin_ids_counterexample:
  "addPlate ''1700000000000'' (Some ''E1'') (Some ''+971500000001'') initialState =
     (Inr twinE1, initialState\<lparr>plates := [twinE1]\<rparr>) \<and>
   addPlate ''1700000000000'' (Some ''E2'') (Some ''+971500000002'')
       (initialState\<lparr>plates := [twinE1]\<rparr>) =
     (Inr twinE2, initialState\<lparr>plates := [twinE1, twinE2]\<rparr>) \<and>
   plates twins = [twinE1, twinE2] \<and>
   checkEVGForPlate probeDownForE2 1 (plateNumber (plates twins ! 1)) = Inl ''Navigation timeout'' \<and>
   performMonitoringCycle probeDownForE2 twins =
     Inr (twins\<lparr>plates := [twinE1\<lparr>lastChecked := Some 6002, status := Error, alertSent := True\<rparr>,
                             twinE2],
                lastCheckTime := Some 6000,
                smsLog := [(0, JStr ''+971500000001'', ''E1'')]\<rparr>) \<and>
   status twinE2 = Pending \<and> lastChecked twinE2 = None"
  by (simp add: twin_defs probeDownForE2_def code_defs addPlate_def truthy_def newPlate_def
      initialState_def upper_twins Let_def)

text \<open>
  C7. \<^verbatim>\<open>performMonitoringCycle\<close> returns the state it was given, \<^verbatim>\<open>lastCheckTime\<close>
  included, when the monitor is not active or the registry is empty. Otherwise it
  assigns \<^verbatim>\<open>lastCheckTime\<close> the time read at the start and then runs the loop from
  the first plate; no iteration of the loop, and so no run of the loop from any
  position, changes \<^verbatim>\<open>lastCheckTime\<close>, which is therefore the time read at the start
  when the cycle ends.
\<close>

theorem run_noop_or_one_timestamp:
  "(\<not> isActive st \<or> plates st = [] \<longrightarrow> performMonitoringCycle env st = Inr st) \<and>
   (isActive st \<and> plates st \<noteq> [] \<longrightarrow>
      performMonitoringCycle env st =
        Inr (cycleLoop env 0 (st\<lparr>lastCheckTime := Some (dateAtStart env)\<rparr>)) \<and>
      (\<exists>st'. performMonitoringCycle env st = Inr st' \<and>
             lastCheckTime st' = Some (dateAtStart env))) \<and>
   (\<forall>i s. lastCheckTime (processPlate env i s) = lastCheckTime s) \<and>
   (\<forall>i s. lastCheckTime (cycleLoop env i s) = lastCheckTime s)"
  by (auto simp: performMonitoringCycle_def cycleLoop_frame)

theorem run_noop_or_one_timestamp_witness:
  "\<not> isActive initialState \<and>
   performMonitoringCycle probeDownForE1 initialState = Inr initialState \<and>
   isActive twoPlates \<and> plates twoPlates \<noteq> [] \<and>
   (\<exists>st'. performMonitoringCycle probeDownForE1 twoPlates = Inr st' \<and>
          lastCheckTime st' = Some 1000)"
proof -
  have a: "\<not> isActive initialState" by (simp add: initialState_def)
  have b: "isActive twoPlates \<and> plates twoPlates \<noteq> []" by (simp add: twoPlates_def)
  have c: "dateAtStart probeDownForE1 = 1000" by (simp add: probeDownForE1_def)
  from a b c run_noop_or_one_timestamp [of initialState probeDownForE1]
    run_noop_or_one_timestamp [of twoPlates probeDownForE1]
  show ?thesis by simp
qed

text \<open>
  C8. The add handler answers a request in which a field is missing or empty with the
  validation error, and a request whose plate number matches that of a tracked plate
  without regard to case with the duplicate error, and leaves the state as it was in
  both cases. Otherwise it appends to the registry exactly one plate: the plate number
  in upper case, the status \<^verbatim>\<open>pending\<close>, \<^verbatim>\<open>alertSent\<close> false and \<^verbatim>\<open>lastChecked\<close>
  \<^verbatim>\<open>null\<close>.
\<close>

theorem add_contract:
  "(\<not> truthy pn \<or> \<not> truthy ph \<longrightarrow>
      addPlate nid pn ph st = (Inl (400, ''Plate number and phone number required''), st)) \<and>
   (n \<noteq> [] \<and> c \<noteq> [] \<and>
    (\<exists>p \<in> set (plates st). toUpperCase (plateNumber p) = toUpperCase n) \<longrightarrow>
      addPlate nid (Some n) (Some c) st =
        (Inl (400, ''Plate number already being monitored''), st)) \<and>
   (n \<noteq> [] \<and> c \<noteq> [] \<and>
    \<not> (\<exists>p \<in> set (plates st). toUpperCase (plateNumber p) = toUpperCase n) \<longrightarrow>
      addPlate nid (Some n) (Some c) st =
        (Inr \<lparr>plateId = nid, plateNumber = toUpperCase n, phoneNumber = JStr c,
              status = Pending, lastChecked = None, alertSent = False\<rparr>,
         st\<lparr>plates := plates st @
              [\<lparr>plateId = nid, plateNumber = toUpperCase n, phoneNumber = JStr c,
                status = Pending, lastChecked = None, alertSent = False\<rparr>]\<rparr>))"
proof (intro conjI impI)
  assume "\<not> truthy pn \<or> \<not> truthy ph"
  then show "addPlate nid pn ph st = (Inl (400, ''Plate number and phone number required''), st)"
    by (auto simp: addPlate_def)
next
  assume a: "n \<noteq> [] \<and> c \<noteq> [] \<and>
    (\<exists>p \<in> set (plates st). toUpperCase (plateNumber p) = toUpperCase n)"
  then have "find (\<lambda>p. toUpperCase (plateNumber p) = toUpperCase n) (plates st) \<noteq> None"
    by (auto simp: find_None_iff)
  with a show "addPlate nid (Some n) (Some c) st =
      (Inl (400, ''Plate number already being monitored''), st)"
    by (auto simp: addPlate_def truthy_def)
next
  assume a: "n \<noteq> [] \<and> c \<noteq> [] \<and>
    \<not> (\<exists>p \<in> set (plates st). toUpperCase (plateNumber p) = toUpperCase n)"
  then have "find (\<lambda>p. toUpperCase (plateNumber p) = toUpperCase n) (plates st) = None"
    by (auto simp: find_None_iff)
  with a show "addPlate nid (Some n) (Some c) st =
        (Inr \<lparr>plateId = nid, plateNumber = toUpperCase n, phoneNumber = JStr c,
              status = Pending, lastChecked = None, alertSent = False\<rparr>,
         st\<lparr>plates := plates st @
              [\<lparr>plateId = nid, plateNumber = toUpperCase n, phoneNumber = JStr c,
                status = Pending, lastChecked = None, alertSent = False\<rparr>]\<rparr>)"
    by (simp add: addPlate_def truthy_def newPlate_def Let_def)
qed

theorem add_contract_witness:
  "\<not> truthy (Some '''') \<and>
   addPlate ''1700000000000'' (Some '''') (Some ''+971500000000'') initialState =
     (Inl (400, ''Plate number and phone number required''), initialState) \<and>
   addPlate ''1700000000000'' (Some ''abc123'') (Some ''+971500000000'') initialState =
     (Inr plateABC123, initialState\<lparr>plates := [plateABC123]\<rparr>) \<and>
   addPlate ''1700000000001'' (Some ''ABC123'') (Some ''+971511111111'')
       (initialState\<lparr>plates := [plateABC123]\<rparr>) =
     (Inl (400, ''Plate number already being monitored''), initialState\<lparr>plates := [plateABC123]\<rparr>)"
proof -
  have empty: "\<not> truthy (Some '''')"
    by (simp add: truthy_def)
  have fresh: "''abc123'' \<noteq> [] \<and> ''+971500000000'' \<noteq> [] \<and>
      \<not> (\<exists>p \<in> set (plates initialState). toUpperCase (plateNumber p) = toUpperCase ''abc123'')"
    by (simp add: initialState_def)
  have known: "''ABC123'' \<noteq> [] \<and> ''+971511111111'' \<noteq> [] \<and>
      (\<exists>p \<in> set (plates (initialState\<lparr>plates := [plateABC123]\<rparr>)).
         toUpperCase (plateNumber p) = toUpperCase ''ABC123'')"
    by (simp add: plateABC123_def upper_literals)
  from empty fresh known
    add_contract [of "Some ''''" "Some ''+971500000000''" "''1700000000000''" initialState
      "''abc123''" "''+971500000000''"]
    add_contract [of "Some ''''" "Some ''+971500000000''" "''1700000000001''"
      "initialState\<lparr>plates := [plateABC123]\<rparr>" "''ABC123''" "''+971511111111''"]
  show ?thesis
    by (simp add: plateABC123_def upper_literals initialState_def)
qed

text \<open>
  C9, as the claim states it, fails: the handler raises on some input lists. On a list
  whose second element is \<^verbatim>\<open>null\<close> the callback throws a \<^verbatim>\<open>TypeError\<close> after the
  plate of the first element has been pushed, and on an element whose plate number is
  the number 7 it throws in \<^verbatim>\<open>plateNumber.toUpperCase()\<close>.
\<close>

theorem bulkAdd_raises_counterexample:
  "bulkAdd batchIds (Some (JArr [entryX1, JNull])) initialState =
     (Inl ''TypeError: Cannot destructure property plateNumber of null'',
      initialState\<lparr>plates := [plateX1]\<rparr>) \<and>
   bulkAdd batchIds (Some (JArr [entryNumber7])) initialState =
     (Inl ''TypeError: plateNumber.toUpperCase is not a function'', initialState)"
  by (simp add: bulkAdd_def bulkEntry_cases entry_members toBoolean_def newPlate_def
      plateX1_def batchIds_def initialState_def upper_literals)

text \<open>
  C9, amended. The bulk handler raises exactly on the input lists that have an element
  on which its callback throws, which is an element that is \<^verbatim>\<open>null\<close> or has a truthy
  phone number and a truthy plate number that is not a string; the plates added for the
  elements before that one stay in the registry. A request without an array is answered
  with status 400. For every other input list the handler returns the plates added and
  one error for every other entry, the plates added being appended to the registry. On
  each entry whose two fields are strings or missing it decides as the add handler does
  on the same fields and the same registry: it adds the plate the add handler would add
  and reports an error where the add handler answers with one. An entry with a string
  for its number and a truthy phone number whose number matches, without regard to
  case, that of an earlier such entry of the request is reported as
  \<^verbatim>\<open>Already exists\<close> and not added, wherever it stands in a request that does not
  raise before it; in a request of two such entries whose number is not yet tracked,
  the first is added and the second is reported.
\<close>

theorem bulkAdd_contract:
  "((\<exists>x st'. bulkAdd mkId (Some (JArr es)) st = (Inl x, st')) \<longleftrightarrow> (\<exists>e \<in> set es. throwsOn e)) \<and>
   ((\<forall>e \<in> set pre. \<not> throwsOn e) \<and> throwsOn bad \<longrightarrow>
      (\<exists>x added errors st'. bulkAdd mkId (Some (JArr (pre @ bad # rest))) st = (Inl x, st') \<and>
         bulkAdd mkId (Some (JArr pre)) st = (Inr (Inr (added, errors)), st') \<and>
         plates st' = plates st @ added)) \<and>
   ((\<forall>vs. body \<noteq> Some (JArr vs)) \<longrightarrow>
      bulkAdd mkId body st = (Inr (Inl (400, ''Plates must be an array'')), st)) \<and>
   ((\<forall>e \<in> set es. \<not> throwsOn e) \<longrightarrow>
      (\<exists>added errors st'. bulkAdd mkId (Some (JArr es)) st = (Inr (Inr (added, errors)), st') \<and>
         length added + length errors = length es \<and> plates st' = plates st @ added)) \<and>
   (e \<noteq> JNull \<and> getMember ''plateNumber'' e = map_option JStr pn \<and>
    getMember ''phoneNumber'' e = map_option JStr ph \<longrightarrow>
      (addPlate nid pn ph s = (Inr p, s1) \<longrightarrow>
         bulkEntry nid e (a, er, s) = Inr (a @ [p], er, s1)) \<and>
      (addPlate nid pn ph s = (Inl err, s1) \<longrightarrow>
         (\<exists>msg. bulkEntry nid e (a, er, s) = Inr (a, er @ [(map_option JStr pn, msg)], s)))) \<and>
   (getMember ''plateNumber'' e2 = Some (JStr n2) \<and> n2 \<noteq> [] \<and>
    toBoolean (getMember ''phoneNumber'' e2) \<and> (\<forall>e \<in> set es. \<not> throwsOn e) \<and>
    (\<exists>e1 \<in> set es. \<exists>n1. getMember ''plateNumber'' e1 = Some (JStr n1) \<and> n1 \<noteq> [] \<and>
       toBoolean (getMember ''phoneNumber'' e1) \<and> toUpperCase n1 = toUpperCase n2) \<longrightarrow>
      (\<exists>added errors st'. forEachEntry mkId 0 es ([], [], st) = Inr (added, errors, st') \<and>
         forEachEntry mkId 0 (es @ e2 # rest) ([], [], st) =
           forEachEntry mkId (Suc (length es)) rest
             (added, errors @ [(Some (JStr n2), ''Already exists'')], st'))) \<and>
   (n \<noteq> [] \<and> toBoolean (Some c1) \<and> m \<noteq> [] \<and> toBoolean (Some c2) \<and>
    toUpperCase m = toUpperCase n \<and>
    \<not> (\<exists>p \<in> set (plates st). toUpperCase (plateNumber p) = toUpperCase n) \<longrightarrow>
      bulkAdd mkId
        (Some (JArr [JObj [(''plateNumber'', JStr n), (''phoneNumber'', c1)],
                     JObj [(''plateNumber'', JStr m), (''phoneNumber'', c2)]])) st =
        (Inr (Inr ([newPlate (mkId 0) n c1], [(Some (JStr m), ''Already exists'')])),
         st\<lparr>plates := plates st @ [newPlate (mkId 0) n c1]\<rparr>))"
proof (intro conjI impI)
  show "(\<exists>x st'. bulkAdd mkId (Some (JArr es)) st = (Inl x, st')) \<longleftrightarrow> (\<exists>e \<in> set es. throwsOn e)"
  proof
    assume "\<exists>x st'. bulkAdd mkId (Some (JArr es)) st = (Inl x, st')"
    then have "\<not> (\<exists>acc. forEachEntry mkId 0 es ([], [], st) = Inr acc)"
      by (auto simp: bulkAdd_def split: sum.splits prod.splits)
    with forEachEntry_shape [of es mkId 0 "[]" "[]" st] show "\<exists>e \<in> set es. throwsOn e"
      by auto
  next
    assume "\<exists>e \<in> set es. throwsOn e"
    then have "\<not> (\<forall>e \<in> set es. \<not> throwsOn e)" by simp
    with forEachEntry_no_throw [of mkId 0 es "([], [], st)"]
    have "\<not> (\<exists>acc. forEachEntry mkId 0 es ([], [], st) = Inr acc)"
      by blast
    then show "\<exists>x st'. bulkAdd mkId (Some (JArr es)) st = (Inl x, st')"
      by (auto simp: bulkAdd_def split: sum.splits prod.splits)
  qed
next
  assume "(\<forall>e \<in> set pre. \<not> throwsOn e) \<and> throwsOn bad"
  with forEachEntry_throws [of pre bad mkId 0 rest "[]" "[]" st]
  show "\<exists>x added errors st'. bulkAdd mkId (Some (JArr (pre @ bad # rest))) st = (Inl x, st') \<and>
         bulkAdd mkId (Some (JArr pre)) st = (Inr (Inr (added, errors)), st') \<and>
         plates st' = plates st @ added"
    by (auto simp: bulkAdd_def)
next
  assume "\<forall>vs. body \<noteq> Some (JArr vs)"
  then show "bulkAdd mkId body st = (Inr (Inl (400, ''Plates must be an array'')), st)"
    by (auto simp: bulkAdd_def split: option.splits json.splits)
next
  assume "\<forall>e \<in> set es. \<not> throwsOn e"
  with forEachEntry_shape [of es mkId 0 "[]" "[]" st]
  show "\<exists>added errors st'. bulkAdd mkId (Some (JArr es)) st = (Inr (Inr (added, errors)), st') \<and>
      length added + length errors = length es \<and> plates st' = plates st @ added"
    by (auto simp: bulkAdd_def)
next
  assume e: "e \<noteq> JNull \<and> getMember ''plateNumber'' e = map_option JStr pn \<and>
    getMember ''phoneNumber'' e = map_option JStr ph"
    and "addPlate nid pn ph s = (Inr p, s1)"
  with bulkEntry_as_addPlate [of e pn ph nid a er s]
  show "bulkEntry nid e (a, er, s) = Inr (a @ [p], er, s1)"
    by simp
next
  assume e: "e \<noteq> JNull \<and> getMember ''plateNumber'' e = map_option JStr pn \<and>
    getMember ''phoneNumber'' e = map_option JStr ph"
    and "addPlate nid pn ph s = (Inl err, s1)"
  with bulkEntry_as_addPlate [of e pn ph nid a er s]
  show "\<exists>msg. bulkEntry nid e (a, er, s) = Inr (a, er @ [(map_option JStr pn, msg)], s)"
    by (cases err) simp
next
  assume dup: "getMember ''plateNumber'' e2 = Some (JStr n2) \<and> n2 \<noteq> [] \<and>
    toBoolean (getMember ''phoneNumber'' e2) \<and> (\<forall>e \<in> set es. \<not> throwsOn e) \<and>
    (\<exists>e1 \<in> set es. \<exists>n1. getMember ''plateNumber'' e1 = Some (JStr n1) \<and> n1 \<noteq> [] \<and>
       toBoolean (getMember ''phoneNumber'' e1) \<and> toUpperCase n1 = toUpperCase n2)"
  then have "\<forall>e \<in> set es. \<not> throwsOn e" by blast
  from forEachEntry_shape [OF this, of mkId 0 "[]" "[]" st]
  obtain added errors st' where run: "forEachEntry mkId 0 es ([], [], st) = Inr (added, errors, st')"
    by auto
  from dup obtain e1 n1 where e1: "e1 \<in> set es" "getMember ''plateNumber'' e1 = Some (JStr n1)"
      "n1 \<noteq> []" "toBoolean (getMember ''phoneNumber'' e1)" "toUpperCase n1 = toUpperCase n2"
    by blast
  from forEachEntry_registers [OF e1(1,2,3,4) run] e1(5)
  have "\<exists>p \<in> set (plates st'). toUpperCase (plateNumber p) = toUpperCase n2"
    by simp
  moreover from dup have "e2 \<noteq> JNull" by (auto simp: getMember_def)
  ultimately have "bulkEntry (mkId (length es)) e2 (added, errors, st') =
      Inr (added, errors @ [(Some (JStr n2), ''Already exists'')], st')"
    using dup by (simp add: bulkEntry_cases toBoolean_def)
  with run have "forEachEntry mkId 0 (es @ e2 # rest) ([], [], st) =
      forEachEntry mkId (Suc (length es)) rest
        (added, errors @ [(Some (JStr n2), ''Already exists'')], st')"
    by (simp add: forEachEntry_append)
  with run show "\<exists>added errors st'. forEachEntry mkId 0 es ([], [], st) = Inr (added, errors, st') \<and>
      forEachEntry mkId 0 (es @ e2 # rest) ([], [], st) =
        forEachEntry mkId (Suc (length es)) rest
          (added, errors @ [(Some (JStr n2), ''Already exists'')], st')"
    by blast
next
  assume two: "n \<noteq> [] \<and> toBoolean (Some c1) \<and> m \<noteq> [] \<and> toBoolean (Some c2) \<and>
    toUpperCase m = toUpperCase n \<and>
    \<not> (\<exists>p \<in> set (plates st). toUpperCase (plateNumber p) = toUpperCase n)"
  then have tb: "toBoolean (Some (JStr n))" "toBoolean (Some (JStr m))"
    by (simp_all add: toBoolean_def)
  from two tb show "bulkAdd mkId
        (Some (JArr [JObj [(''plateNumber'', JStr n), (''phoneNumber'', c1)],
                     JObj [(''plateNumber'', JStr m), (''phoneNumber'', c2)]])) st =
        (Inr (Inr ([newPlate (mkId 0) n c1], [(Some (JStr m), ''Already exists'')])),
         st\<lparr>plates := plates st @ [newPlate (mkId 0) n c1]\<rparr>)"
    by (simp add: bulkAdd_def bulkEntry_cases getMember_def newPlate_def)
qed


theorem bulkAdd_contract_witness:
  "bulkAdd batchIds (Some (JArr [entryX1, entryX1again])) initialState =
     (Inr (Inr ([plateX1], [(Some (JStr ''x1''), ''Already exists'')])),
      initialState\<lparr>plates := [plateX1]\<rparr>) \<and>
   addPlate (batchIds 0) (Some ''X1'') (Some ''p1'') initialState =
     (Inr plateX1, initialState\<lparr>plates := [plateX1]\<rparr>) \<and>
   bulkEntry (batchIds 0) entryX1 ([], [], initialState) =
     Inr ([plateX1], [], initialState\<lparr>plates := [plateX1]\<rparr>) \<and>
   addPlate (batchIds 1) (Some ''x1'') (Some ''p2'') (initialState\<lparr>plates := [plateX1]\<rparr>) =
     (Inl (400, ''Plate number already being monitored''), initialState\<lparr>plates := [plateX1]\<rparr>) \<and>
   (\<exists>msg. bulkEntry (batchIds 1) entryX1again ([plateX1], [], initialState\<lparr>plates := [plateX1]\<rparr>) =
     Inr ([plateX1], [(Some (JStr ''x1''), msg)], initialState\<lparr>plates := [plateX1]\<rparr>)) \<and>
   forEachEntry batchIds 0 ([entryX1] @ entryX1again # []) ([], [], initialState) =
     Inr ([plateX1], [(Some (JStr ''x1''), ''Already exists'')], initialState\<lparr>plates := [plateX1]\<rparr>) \<and>
   (\<exists>x. bulkAdd batchIds (Some (JArr ([entryX1] @ JNull # [entryX1again]))) initialState =
     (Inl x, initialState\<lparr>plates := [plateX1]\<rparr>)) \<and>
   (\<exists>x st'. bulkAdd batchIds (Some (JArr [entryNumber7])) initialState = (Inl x, st')) \<and>
   bulkAdd batchIds (Some (JObj [])) initialState =
     (Inr (Inl (400, ''Plates must be an array'')), initialState) \<and>
   (\<exists>added errors st'.
      bulkAdd batchIds (Some (JArr [entryX1, JStr ''E2'', entryX1again])) initialState =
        (Inr (Inr (added, errors)), st') \<and>
      length added + length errors = 3 \<and> plates st' = plates initialState @ added)"
proof -
  let ?s1 = "initialState\<lparr>plates := [plateX1]\<rparr>"
  have new: "newPlate (batchIds 0) ''X1'' (JStr ''p1'') = plateX1"
    by (simp add: newPlate_def plateX1_def batchIds_def upper_literals)
  have pi: "plates initialState = []"
    by (simp add: initialState_def)
  have nothrow: "\<not> throwsOn entryX1" "\<not> throwsOn entryX1again" "\<not> throwsOn (JStr ''E2'')"
    "throwsOn JNull" "throwsOn entryNumber7"
    by (simp_all add: throwsOn_def entry_members getMember_JStr toBoolean_def)
  have add1: "addPlate (batchIds 0) (Some ''X1'') (Some ''p1'') initialState = (Inr plateX1, ?s1)"
    by (simp add: addPlate_def truthy_def initialState_def new)
  have add2: "addPlate (batchIds 1) (Some ''x1'') (Some ''p2'') ?s1 =
      (Inl (400, ''Plate number already being monitored''), ?s1)"
    by (simp add: addPlate_def truthy_def plateX1_def upper_literals)
  have loop1: "forEachEntry batchIds 0 [entryX1] ([], [], initialState) = Inr ([plateX1], [], ?s1)"
    by (simp add: bulkEntry_cases entry_members toBoolean_def pi new)
  have bulk1: "bulkAdd batchIds (Some (JArr [entryX1])) initialState = (Inr (Inr ([plateX1], [])), ?s1)"
    by (simp add: bulkAdd_def loop1 del: forEachEntry.simps)
  have two: "''X1'' \<noteq> [] \<and> toBoolean (Some (JStr ''p1'')) \<and> ''x1'' \<noteq> [] \<and>
      toBoolean (Some (JStr ''p2'')) \<and> toUpperCase ''x1'' = toUpperCase ''X1'' \<and>
      \<not> (\<exists>p \<in> set (plates initialState). toUpperCase (plateNumber p) = toUpperCase ''X1'')"
    by (simp add: upper_literals pi toBoolean_def)
  from bulkAdd_contract [where mkId = batchIds and st = initialState and n = "''X1''"
      and ?c1.0 = "JStr ''p1''" and m = "''x1''" and ?c2.0 = "JStr ''p2''"] two
  have c1: "bulkAdd batchIds (Some (JArr [entryX1, entryX1again])) initialState =
      (Inr (Inr ([plateX1], [(Some (JStr ''x1''), ''Already exists'')])), ?s1)"
    by (simp add: new pi entryX1_def entryX1again_def)
  from bulkAdd_contract [where nid = "batchIds 0" and e = entryX1 and pn = "Some ''X1''"
      and ph = "Some ''p1''" and s = initialState and p = plateX1 and ?s1.0 = ?s1
      and a = "[]" and er = "[]"] add1
  have c3: "bulkEntry (batchIds 0) entryX1 ([], [], initialState) = Inr ([plateX1], [], ?s1)"
    by (simp add: entry_members)
  from bulkAdd_contract [where nid = "batchIds 1" and e = entryX1again and pn = "Some ''x1''"
      and ph = "Some ''p2''" and s = ?s1
      and err = "(400, ''Plate number already being monitored'')" and ?s1.0 = ?s1
      and a = "[plateX1]" and er = "[]"] add2
  have c4: "\<exists>msg. bulkEntry (batchIds 1) entryX1again ([plateX1], [], ?s1) =
      Inr ([plateX1], [(Some (JStr ''x1''), msg)], ?s1)"
    by (simp add: entry_members)
  have dup: "getMember ''plateNumber'' entryX1again = Some (JStr ''x1'') \<and> ''x1'' \<noteq> [] \<and>
      toBoolean (getMember ''phoneNumber'' entryX1again) \<and>
      (\<forall>e \<in> set [entryX1]. \<not> throwsOn e) \<and>
      (\<exists>e1 \<in> set [entryX1]. \<exists>n1. getMember ''plateNumber'' e1 = Some (JStr n1) \<and> n1 \<noteq> [] \<and>
         toBoolean (getMember ''phoneNumber'' e1) \<and> toUpperCase n1 = toUpperCase ''x1'')"
    by (simp add: entry_members toBoolean_def upper_literals nothrow)
  from bulkAdd_contract [where mkId = batchIds and st = initialState and es = "[entryX1]"
      and ?e2.0 = entryX1again and ?n2.0 = "''x1''" and rest = "[]",
      THEN conjunct2, THEN conjunct2, THEN conjunct2, THEN conjunct2, THEN conjunct2,
      THEN conjunct1]
  have "getMember ''plateNumber'' entryX1again = Some (JStr ''x1'') \<and> ''x1'' \<noteq> [] \<and>
      toBoolean (getMember ''phoneNumber'' entryX1again) \<and>
      (\<forall>e \<in> set [entryX1]. \<not> throwsOn e) \<and>
      (\<exists>e1 \<in> set [entryX1]. \<exists>n1. getMember ''plateNumber'' e1 = Some (JStr n1) \<and> n1 \<noteq> [] \<and>
         toBoolean (getMember ''phoneNumber'' e1) \<and> toUpperCase n1 = toUpperCase ''x1'') \<longrightarrow>
      (\<exists>added errors st'. forEachEntry batchIds 0 [entryX1] ([], [], initialState) = Inr (added, errors, st') \<and>
         forEachEntry batchIds 0 ([entryX1] @ entryX1again # []) ([], [], initialState) =
           forEachEntry batchIds (Suc (length [entryX1])) []
             (added, errors @ [(Some (JStr ''x1''), ''Already exists'')], st'))" .
  with dup obtain added errors st'
    where f1: "forEachEntry batchIds 0 [entryX1] ([], [], initialState) = Inr (added, errors, st')"
      and f2: "forEachEntry batchIds 0 ([entryX1] @ entryX1again # []) ([], [], initialState) =
           forEachEntry batchIds (Suc (length [entryX1])) []
             (added, errors @ [(Some (JStr ''x1''), ''Already exists'')], st')"
    by blast
  from f1 have "added = [plateX1] \<and> errors = [] \<and> st' = ?s1"
    unfolding loop1 by blast
  with f2 have c5: "forEachEntry batchIds 0 ([entryX1] @ entryX1again # []) ([], [], initialState) =
      Inr ([plateX1], [(Some (JStr ''x1''), ''Already exists'')], ?s1)"
    by simp
  from bulkAdd_contract [where mkId = batchIds and st = initialState and pre = "[entryX1]"
      and bad = JNull and rest = "[entryX1again]"] nothrow
  have "\<exists>x added errors st'.
      bulkAdd batchIds (Some (JArr ([entryX1] @ JNull # [entryX1again]))) initialState = (Inl x, st') \<and>
      bulkAdd batchIds (Some (JArr [entryX1])) initialState = (Inr (Inr (added, errors)), st') \<and>
      plates st' = plates initialState @ added"
    by simp
  then have c6: "\<exists>x. bulkAdd batchIds (Some (JArr ([entryX1] @ JNull # [entryX1again]))) initialState =
      (Inl x, ?s1)"
    unfolding bulk1 by auto
  from bulkAdd_contract [where mkId = batchIds and st = initialState and es = "[entryNumber7]"] nothrow
  have c7: "\<exists>x st'. bulkAdd batchIds (Some (JArr [entryNumber7])) initialState = (Inl x, st')"
    by simp
  from bulkAdd_contract [where mkId = batchIds and st = initialState and body = "Some (JObj [])"]
  have c8: "bulkAdd batchIds (Some (JObj [])) initialState =
      (Inr (Inl (400, ''Plates must be an array'')), initialState)"
    by simp
  from bulkAdd_contract [where mkId = batchIds and st = initialState
      and es = "[entryX1, JStr ''E2'', entryX1again]",
      THEN conjunct2, THEN conjunct2, THEN conjunct2, THEN conjunct1] nothrow
  have c9: "\<exists>added errors st'.
      bulkAdd batchIds (Some (JArr [entryX1, JStr ''E2'', entryX1again])) initialState =
        (Inr (Inr (added, errors)), st') \<and>
      length added + length errors = 3 \<and> plates st' = plates initialState @ added"
    by (simp add: numeral_3_eq_3)
  show ?thesis
    by (intro conjI) (rule c1 add1 c3 add2 c4 c5 c6 c7 c8 c9)+
qed

text \<open>
  C10. \<^verbatim>\<open>updatePlateStatus\<close> on an identifier that no plate of the registry has changes
  nothing, whatever the partial update is: the function is total and returns the state
  it was given. In particular, once a plate has been removed (identifiers being
  pairwise different), a result that a cycle in flight applies to it later is dropped:
  no plate is changed and none comes back.
\<close>

theorem updatePlateStatus_absent_noop:
  "(pid \<notin> plateId ` set (plates st) \<longrightarrow> updatePlateStatus pid u st = st) \<and>
   (distinct (map plateId (plates st)) \<and> removePlate pid st = (Inr p, st')
      \<longrightarrow> updatePlateStatus pid u st' = st')"
  using updatePlateStatus_unknown_id removePlate_id_gone by blast

theorem updatePlateStatus_absent_noop_witness:
  "''3'' \<notin> plateId ` set (plates twoPlates) \<and>
   updatePlateStatus ''3'' \<lparr>u_status = Some Found, u_lastChecked = None, u_alertSent = Some True\<rparr>
     twoPlates = twoPlates \<and>
   distinct (map plateId (plates twoPlates)) \<and>
   removePlate ''1'' twoPlates = (Inr plateE1, twoPlates\<lparr>plates := [plateE2]\<rparr>) \<and>
   updatePlateStatus ''1'' \<lparr>u_status = Some Found, u_lastChecked = None, u_alertSent = Some True\<rparr>
     (twoPlates\<lparr>plates := [plateE2]\<rparr>) = twoPlates\<lparr>plates := [plateE2]\<rparr>"
proof -
  have absent: "''3'' \<notin> plateId ` set (plates twoPlates)"
    by (simp add: twoPlates_def plateE1_def plateE2_def)
  have ids: "distinct (map plateId (plates twoPlates))"
    by (simp add: twoPlates_def plateE1_def plateE2_def)
  have removed: "removePlate ''1'' twoPlates = (Inr plateE1, twoPlates\<lparr>plates := [plateE2]\<rparr>)"
    by (simp add: removePlate_def twoPlates_def plateE1_def plateE2_def)
  from absent ids removed
    updatePlateStatus_absent_noop [of "''3''" twoPlates
      "\<lparr>u_status = Some Found, u_lastChecked = None, u_alertSent = Some True\<rparr>"]
    updatePlateStatus_absent_noop [of "''1''" twoPlates
      "\<lparr>u_status = Some Found, u_lastChecked = None, u_alertSent = Some True\<rparr>"
      plateE1 "twoPlates\<lparr>plates := [plateE2]\<rparr>"]
  show ?thesis by simp
qed

end
